theory Spec2Isabelle
  imports Complex_Main "HOL-Library.Sublist"
begin

section \<open>Python values\<close>

text \<open>
  The agent (\<^verbatim>\<open>crab/agent.py\<close>) handles text and the objects that \<^verbatim>\<open>json.loads\<close>
  returns. A Python \<^verbatim>\<open>str\<close> is modelled as a \<^typ>\<open>string\<close> whose characters are the
  code points below 256. A Python object is a \<open>pyval\<close>; \<open>PNone\<close> is \<^verbatim>\<open>None\<close>
  (JSON \<^verbatim>\<open>null\<close>), a \<^verbatim>\<open>dict\<close> is an association list read with \<^const>\<open>map_of\<close>.
\<close>

datatype pyfloat = Finite real | PosInf | NegInf | NaN

datatype pyval =
    PNone
  | PBool bool
  | PInt int
  | PFloat pyfloat
  | PStr string
  | PList "pyval list"
  | PDict "(string \<times> pyval) list"

text \<open>Truth value testing, as \<^verbatim>\<open>if x:\<close> and \<^verbatim>\<open>not x\<close> do it.\<close>

fun truthy :: "pyval \<Rightarrow> bool" where
  "truthy PNone = False"
| "truthy (PBool b) = b"
| "truthy (PInt i) = (i \<noteq> 0)"
| "truthy (PFloat f) = (f \<noteq> Finite 0)"
| "truthy (PStr s) = (s \<noteq> [])"
| "truthy (PList xs) = (xs \<noteq> [])"
| "truthy (PDict kv) = (kv \<noteq> [])"

datatype error = AttributeError | IndexError

text \<open>
  \<^verbatim>\<open>data.get(key, default)\<close>: only a \<^verbatim>\<open>dict\<close> has the method; on any other object
  the attribute lookup raises \<^verbatim>\<open>AttributeError\<close>.
\<close>

fun dict_get :: "pyval \<Rightarrow> string \<Rightarrow> pyval \<Rightarrow> error + pyval" where
  "dict_get (PDict kv) k d = Inr (case map_of kv k of None \<Rightarrow> d | Some v \<Rightarrow> v)"
| "dict_get _ k d = Inl AttributeError"

section \<open>String primitives\<close>

text \<open>
  The characters that \<^verbatim>\<open>str.strip()\<close> and \<^verbatim>\<open>str.split()\<close> treat as whitespace, among
  the code points below 256: TAB, LF, VT, FF, CR, the separators 0x1C to 0x1F, SPACE,
  NEL (0x85) and NBSP (0xA0).
\<close>

definition is_space :: "char \<Rightarrow> bool" where
  "is_space c =
     (let n = (of_char c :: nat)
      in (9 \<le> n \<and> n \<le> 13) \<or> (28 \<le> n \<and> n \<le> 32) \<or> n = 133 \<or> n = 160)"

definition str_strip :: "string \<Rightarrow> string" where
  "str_strip s = rev (dropWhile is_space (rev (dropWhile is_space s)))"

text \<open>\<^verbatim>\<open>s.split()\<close>: the maximal runs of non-whitespace characters, in order.\<close>

fun split_from :: "string \<Rightarrow> string \<Rightarrow> string list" where
  "split_from cur [] = (if cur = [] then [] else [cur])"
| "split_from cur (c # cs) =
     (if is_space c then (if cur = [] then split_from [] cs else cur # split_from [] cs)
      else split_from (cur @ [c]) cs)"

definition str_split :: "string \<Rightarrow> string list" where
  "str_split s = split_from [] s"

text \<open>\<^verbatim>\<open>xs[0]\<close> raises \<^verbatim>\<open>IndexError\<close> on an empty list.\<close>

definition index0 :: "'a list \<Rightarrow> error + 'a" where
  "index0 xs = (case xs of [] \<Rightarrow> Inl IndexError | x # _ \<Rightarrow> Inr x)"

text \<open>
  \<^verbatim>\<open>re.search(r'\{[\s\S]*\}', response)\<close>: the class \<^verbatim>\<open>[\s\S]\<close> matches every
  character and the star is greedy, so the leftmost match starts at the first
  \<^verbatim>\<open>{\<close> and ends at the last \<^verbatim>\<open>}\<close> of the text, and there is a match exactly when
  some \<^verbatim>\<open>}\<close> follows the first \<^verbatim>\<open>{\<close>. The result is the start index of the match
  and the matched text (\<^verbatim>\<open>m.start()\<close>, \<^verbatim>\<open>m.group()\<close>).
\<close>

definition re_search :: "string \<Rightarrow> (nat \<times> string) option" where
  "re_search response =
     (let pre = takeWhile (\<lambda>c. c \<noteq> CHR ''{'') response;
          rest = dropWhile (\<lambda>c. c \<noteq> CHR ''{'') response
      in if rest = [] then None
         else if CHR ''}'' \<notin> set (tl rest) then None
         else Some (length pre, rev (dropWhile (\<lambda>c. c \<noteq> CHR ''}'') (rev rest))))"

section \<open>Response parser\<close>

text \<open>
  \<^verbatim>\<open>json.loads\<close> is the standard library's decoder and is a parameter \<open>loads\<close> of the
  parser: \<open>loads s = None\<close> when decoding \<open>s\<close> raises (the bare \<^verbatim>\<open>except:\<close> of
  \<^verbatim>\<open>extract_json_fields\<close> catches everything), \<open>Some v\<close> when it returns \<open>v\<close>.
\<close>

definition extract_json_fields :: "(string \<Rightarrow> pyval option) \<Rightarrow> string \<Rightarrow> pyval \<times> string option" where
  "extract_json_fields loads response =
     (case re_search response of
        None \<Rightarrow> (PDict [], None)
      | Some (start, json_str) \<Rightarrow>
          (case loads json_str of
             None \<Rightarrow> (PDict [], None)
           | Some data \<Rightarrow> (data, Some json_str)))"

definition extract_command :: "(string \<Rightarrow> pyval option) \<Rightarrow> string \<Rightarrow> error + (pyval \<times> pyval)" where
  "extract_command loads response =
     (let (data, _) = extract_json_fields loads response
      in case dict_get data ''terminal'' (PStr '''') of
           Inl e \<Rightarrow> Inl e
         | Inr terminal \<Rightarrow> if truthy terminal then Inr (terminal, PNone) else Inr (PNone, PNone))"

definition extract_panel_actions :: "(string \<Rightarrow> pyval option) \<Rightarrow> string \<Rightarrow> error + pyval" where
  "extract_panel_actions loads response =
     (let (data, _) = extract_json_fields loads response
      in case dict_get data ''panelActions'' (PList []) of
           Inl e \<Rightarrow> Inl e
         | Inr panel_actions \<Rightarrow>
             (case panel_actions of PList xs \<Rightarrow> Inr panel_actions | _ \<Rightarrow> Inr (PList [])))"

definition extract_user_id :: "(string \<Rightarrow> pyval option) \<Rightarrow> string \<Rightarrow> error + pyval" where
  "extract_user_id loads response =
     (let (data, _) = extract_json_fields loads response
      in dict_get data ''userId'' (PStr ''''))"

definition extract_message :: "(string \<Rightarrow> pyval option) \<Rightarrow> string \<Rightarrow> error + pyval" where
  "extract_message loads response =
     (let (data, _) = extract_json_fields loads response
      in case dict_get data ''message'' (PStr '''') of
           Inl e \<Rightarrow> Inl e
         | Inr msg \<Rightarrow>
             if \<not> truthy msg then
               (case re_search response of
                  Some (start, _) \<Rightarrow> Inr (PStr (str_strip (take start response)))
                | None \<Rightarrow> Inr (PStr (str_strip response)))
             else Inr msg)"

definition extract_action :: "(string \<Rightarrow> pyval option) \<Rightarrow> string \<Rightarrow> error + pyval" where
  "extract_action loads response =
     (let (data, _) = extract_json_fields loads response
      in dict_get data ''action'' (PStr ''''))"

section \<open>Command risk classifier\<close>

definition dangerous_tools :: "string list" where
  "dangerous_tools =
     [''rm'', ''sudo'', ''su'', ''shutdown'', ''reboot'', ''nmap'', ''kill'', ''docker'',
      ''spawn_agent'']"

text \<open>
  \<^verbatim>\<open>cmd.strip()\<close> raises \<^verbatim>\<open>AttributeError\<close> when \<open>cmd\<close> is not a \<^verbatim>\<open>str\<close>. The loop
  over the tools returns at the first hit; \<^verbatim>\<open>base.startswith(tool)\<close> holds when
  \<open>tool\<close> is a prefix of \<open>base\<close>.
\<close>

definition is_dangerous :: "pyval \<Rightarrow> error + bool" where
  "is_dangerous cmd =
     (case cmd of
        PStr s \<Rightarrow>
          (case (if str_strip s \<noteq> [] then index0 (str_split (str_strip s)) else Inr []) of
             Inl e \<Rightarrow> Inl e
           | Inr base \<Rightarrow>
               Inr (list_ex (\<lambda>tool. base = tool \<or> prefix tool base) dangerous_tools))
      | _ \<Rightarrow> Inl AttributeError)"

text \<open>
  Two notions of the specification, for comparison with \<open>is_dangerous\<close>: the first
  whitespace-delimited token of a command (empty when there is none), and the
  classification in the specification's words, "the token equals, or is a prefix
  of, an entry of the denylist".
\<close>

definition first_token :: "string \<Rightarrow> string" where
  "first_token s = takeWhile (\<lambda>c. \<not> is_space c) (dropWhile is_space s)"

definition token_prefix_of_entry :: "string \<Rightarrow> bool" where
  "token_prefix_of_entry s =
     list_ex (\<lambda>entry. first_token s = entry \<or> prefix (first_token s) entry) dangerous_tools"

section \<open>Environment, events and the approval gate\<close>

text \<open>
  The part of the environment that the agent reads: the two marker files
  \<^verbatim>\<open>/tmp/hermit_approval.lock\<close> and \<^verbatim>\<open>/tmp/hermit_deny.lock\<close> (present or absent, as
  \<^verbatim>\<open>os.path.exists\<close> sees them). Everything else (the clock, other processes) is
  the field \<open>rest\<close>, which the agent never reads.
\<close>

record world =
  lock_file :: bool
  deny_file :: bool
  rest :: nat

datatype role = System | User | Assistant

record message =
  role :: role
  content :: string

text \<open>
  What one invocation does to the outside, in order: the progress lines of the
  approval path, the final \<^verbatim>\<open>print(json.dumps(...))\<close> (the object before
  serialisation), the final \<^verbatim>\<open>print(message)\<close>, a backend call with the messages
  sent, a \<^verbatim>\<open>subprocess.run\<close> of a command, and a \<^verbatim>\<open>time.sleep(1)\<close>.
\<close>

datatype event =
    PrintProgress string
  | PrintJson pyval
  | PrintMessage pyval
  | LlmCall "message list"
  | Run string
  | Sleep

text \<open>
  The gate. \<open>slp\<close> is what the environment does to the world during one
  \<^verbatim>\<open>time.sleep(1)\<close>. \<^verbatim>\<open>os.remove\<close> makes the marker absent: a marker is taken to
  be a file that the agent may delete, and no other process removes it between the
  test and the removal.
\<close>

function wait_loop :: "(world \<Rightarrow> world) \<Rightarrow> nat \<Rightarrow> world \<Rightarrow> event list \<Rightarrow> bool \<times> world \<times> event list" where
  "wait_loop slp waited w tr =
     (if waited < 600 then
        if lock_file w then
          (True, w\<lparr>lock_file := False\<rparr>, tr @ [PrintProgress ''[HITL] Approved!''])
        else if deny_file w then
          (False, w\<lparr>deny_file := False\<rparr>, tr @ [PrintProgress ''[HITL] Denied!''])
        else wait_loop slp (waited + 1) (slp w) (tr @ [Sleep])
      else (False, w, tr))"
  by pat_completeness auto
termination
  by (relation "measure (\<lambda>(slp, waited, w, tr). 600 - waited)") auto

definition wait_for_approval :: "(world \<Rightarrow> world) \<Rightarrow> world \<Rightarrow> event list \<Rightarrow> bool \<times> world \<times> event list" where
  "wait_for_approval slp w tr =
     wait_loop slp 0 w (tr @ [PrintProgress ''[HITL] Waiting for approval...''])"

section \<open>Conversation loop\<close>

text \<open>
  The collaborators of the loop: the backend call (a reply for the messages sent,
  and what happened to the world meanwhile), the decoder, \<^verbatim>\<open>subprocess.run\<close>
  (captured output or the text of the exception raised, and the new world), the
  environment's step during a sleep, and the flag \<^verbatim>\<open>HITL_ENABLED\<close>. The backend
  call and \<^verbatim>\<open>subprocess.run\<close> are taken to return, the reply to be a \<^verbatim>\<open>str\<close>, and
  writing to standard output to succeed.
\<close>

datatype outcome = Completed string | Raised string

record env =
  call_llm :: "message list \<Rightarrow> world \<Rightarrow> string \<times> world"
  json_loads :: "string \<Rightarrow> pyval option"
  subprocess_run :: "string \<Rightarrow> world \<Rightarrow> outcome \<times> world"
  sleep :: "world \<Rightarrow> world"
  hitl_enabled :: bool

datatype status = Continue | Break | Fault error

record state =
  messages :: "message list"
  world :: world
  trace :: "event list"
  status :: status

definition user_message :: "string \<Rightarrow> message" where
  "user_message text = \<lparr>role = User, content = text\<rparr>"

text \<open>Lines 182 to 191: the executor block.\<close>

definition execute :: "env \<Rightarrow> string \<Rightarrow> state \<Rightarrow> state" where
  "execute E cmd st =
     (case subprocess_run E cmd (world st) of
        (Completed out, w) \<Rightarrow>
          st\<lparr>world := w, trace := trace st @ [Run cmd],
             messages := messages st @
               [user_message (''[INTERNAL_COMMAND_OUTPUT]'' @ [CHR 0x0A] @
                  (if out = [] then ''Command executed successfully with no output.'' else out))]\<rparr>
      | (Raised e, w) \<Rightarrow>
          st\<lparr>world := w, trace := trace st @ [Run cmd],
             messages := messages st @ [user_message (''ERROR executing command: '' @ e)]\<rparr>)"

text \<open>
  Lines 193 to 216: the final emission. The list \<^verbatim>\<open>output_parts\<close> is built and
  never used, so it is left out.
\<close>

definition emit_final :: "env \<Rightarrow> string \<Rightarrow> state \<Rightarrow> state" where
  "emit_final E response st =
     (case extract_user_id (json_loads E) response of
        Inl e \<Rightarrow> st\<lparr>status := Fault e\<rparr>
      | Inr user_id \<Rightarrow>
     (case extract_message (json_loads E) response of
        Inl e \<Rightarrow> st\<lparr>status := Fault e\<rparr>
      | Inr message \<Rightarrow>
     (case extract_action (json_loads E) response of
        Inl e \<Rightarrow> st\<lparr>status := Fault e\<rparr>
      | Inr action \<Rightarrow>
     (let (json_fields, json_str) = extract_json_fields (json_loads E) response
      in if truthy json_fields then
           (case dict_get json_fields ''panelActions'' (PList []) of
              Inl e \<Rightarrow> st\<lparr>status := Fault e\<rparr>
            | Inr panel \<Rightarrow>
                st\<lparr>trace := trace st @
                     [PrintJson (PDict [(''userId'', user_id), (''message'', message),
                        (''action'', action), (''terminal'', PStr ''''),
                        (''panelActions'', panel)])],
                   status := Break\<rparr>)
         else st\<lparr>trace := trace st @ [PrintMessage message], status := Break\<rparr>))))"

text \<open>
  Lines 160 to 216: one pass of the \<^verbatim>\<open>while\<close> body (the counter is kept by the loop
  below). The \<^verbatim>\<open>for line in response.split(...)\<close> block only executes \<^verbatim>\<open>pass\<close>.
  \<^verbatim>\<open>is_dangerous(cmd)\<close> is evaluated before \<^verbatim>\<open>hitl_enabled\<close>. Once it has
  returned, \<open>cmd\<close> is a \<^verbatim>\<open>str\<close>; the last case is never reached.
\<close>

definition body :: "env \<Rightarrow> state \<Rightarrow> state" where
  "body E st =
     (let (response, w1) = call_llm E (messages st) (world st);
          st1 = st\<lparr>world := w1, trace := trace st @ [LlmCall (messages st)],
                   messages := messages st @ [\<lparr>role = Assistant, content = response\<rparr>]\<rparr>
      in case extract_command (json_loads E) response of
           Inl e \<Rightarrow> st1\<lparr>status := Fault e\<rparr>
         | Inr (cmd, _) \<Rightarrow>
             if truthy cmd then
               (case is_dangerous cmd of
                  Inl e \<Rightarrow> st1\<lparr>status := Fault e\<rparr>
                | Inr dangerous \<Rightarrow>
                    (case cmd of
                       PStr c \<Rightarrow>
                         if dangerous \<and> hitl_enabled E then
                           (let st2 = st1\<lparr>trace := trace st1 @
                                        [PrintProgress (''[HITL] APPROVAL_REQUIRED: '' @ c)]\<rparr>;
                                (approved, w2, tr2) =
                                   wait_for_approval (sleep E) (world st2) (trace st2);
                                st3 = st2\<lparr>world := w2, trace := tr2\<rparr>
                            in if \<not> approved then
                                 st3\<lparr>messages := messages st3 @
                                       [user_message ''ERROR: Command denied by user'']\<rparr>
                               else
                                 execute E c
                                   (st3\<lparr>trace := trace st3 @
                                      [PrintProgress (''[HITL] EXECUTING: '' @ c)]\<rparr>))
                         else execute E c st1
                     | _ \<Rightarrow> st1\<lparr>status := Fault AttributeError\<rparr>))
             else emit_final E response st1)"

definition max_iters :: nat where
  "max_iters = 5"

text \<open>
  Lines 156 to 216: \<^verbatim>\<open>while iters < max_iters\<close>. A \<^verbatim>\<open>break\<close> or an exception ends
  the loop; \<^verbatim>\<open>continue\<close> and the end of the body go back to the test.
\<close>

function loop :: "env \<Rightarrow> nat \<Rightarrow> state \<Rightarrow> state" where
  "loop E iters st =
     (if iters < max_iters then
        (let st' = body E st
         in if status st' = Continue then loop E (iters + 1) st' else st')
      else st)"
  by pat_completeness auto
termination
  by (relation "measure (\<lambda>(E, iters, st). max_iters - iters)") auto

text \<open>
  \<^verbatim>\<open>main\<close>, from the messages on: the system prompt, the decoded history and the
  user message are its inputs.
\<close>

definition main :: "env \<Rightarrow> string \<Rightarrow> message list \<Rightarrow> string \<Rightarrow> world \<Rightarrow> state" where
  "main E system_prompt history user_msg w =
     loop E 0
       \<lparr>messages = [\<lparr>role = System, content = system_prompt\<rparr>] @ history @ [user_message user_msg],
        world = w, trace = [], status = Continue\<rparr>"


section \<open>Notions used in the statements\<close>

text \<open>
  A text has a brace pair when some \<^verbatim>\<open>{\<close> has a \<^verbatim>\<open>}\<close> somewhere after it.
\<close>

fun has_brace_pair :: "string \<Rightarrow> bool" where
  "has_brace_pair [] = False"
| "has_brace_pair (c # cs) = ((c = CHR ''{'' \<and> CHR ''}'' \<in> set cs) \<or> has_brace_pair cs)"

text \<open>
  What the parser relies on from \<^verbatim>\<open>json.loads\<close>: a text that starts with \<^verbatim>\<open>{\<close>
  decodes to a \<^verbatim>\<open>dict\<close>, when it decodes at all.
\<close>

definition decodes_objects :: "(string \<Rightarrow> pyval option) \<Rightarrow> bool" where
  "decodes_objects loads = (\<forall>s v. loads (CHR ''{'' # s) = Some v \<longrightarrow> (\<exists>kv. v = PDict kv))"

text \<open>A field of a decoded object that is absent or holds a falsy value; a field or its default.\<close>

definition field_falsy :: "(string \<times> pyval) list \<Rightarrow> string \<Rightarrow> bool" where
  "field_falsy kv k = (case map_of kv k of None \<Rightarrow> True | Some v \<Rightarrow> \<not> truthy v)"

definition field_or :: "(string \<times> pyval) list \<Rightarrow> string \<Rightarrow> pyval \<Rightarrow> pyval" where
  "field_or kv k d = (case map_of kv k of None \<Rightarrow> d | Some v \<Rightarrow> v)"

text \<open>
  The object of the final emission for a reply that decodes to the fields \<open>kv\<close>, with
  \<open>prose\<close> the text before the matched substring.
\<close>

definition final_object :: "string \<Rightarrow> (string \<times> pyval) list \<Rightarrow> pyval" where
  "final_object prose kv =
     PDict [(''userId'', field_or kv ''userId'' (PStr '''')),
            (''message'', if field_falsy kv ''message'' then PStr (str_strip prose)
                          else field_or kv ''message'' (PStr '''')),
            (''action'', field_or kv ''action'' (PStr '''')),
            (''terminal'', PStr ''''),
            (''panelActions'', field_or kv ''panelActions'' (PList []))]"

text \<open>The state once the reply of the backend has been appended (line 171).\<close>

definition after_reply :: "state \<Rightarrow> string \<Rightarrow> world \<Rightarrow> state" where
  "after_reply st response w1 =
     st\<lparr>world := w1, trace := trace st @ [LlmCall (messages st)],
        messages := messages st @ [\<lparr>role = Assistant, content = response\<rparr>]\<rparr>"

text \<open>Kinds of events.\<close>

definition is_final :: "event \<Rightarrow> bool" where
  "is_final e = (case e of PrintJson _ \<Rightarrow> True | PrintMessage _ \<Rightarrow> True | _ \<Rightarrow> False)"

definition is_run :: "event \<Rightarrow> bool" where
  "is_run e = (case e of Run _ \<Rightarrow> True | _ \<Rightarrow> False)"

definition is_llm_call :: "event \<Rightarrow> bool" where
  "is_llm_call e = (case e of LlmCall _ \<Rightarrow> True | _ \<Rightarrow> False)"

text \<open>
  The reply to the messages of a state yields a command; every pass that the loop
  performs from a state, for at most \<open>n\<close> passes, yields a command.
\<close>

definition yields_command :: "env \<Rightarrow> state \<Rightarrow> bool" where
  "yields_command E st =
     (case extract_command (json_loads E) (fst (call_llm E (messages st) (world st))) of
        Inl e \<Rightarrow> False
      | Inr (cmd, _) \<Rightarrow> truthy cmd)"

fun all_yield :: "env \<Rightarrow> nat \<Rightarrow> state \<Rightarrow> bool" where
  "all_yield E 0 st = True"
| "all_yield E (Suc n) st =
     (yields_command E st \<and> (status (body E st) = Continue \<longrightarrow> all_yield E n (body E st)))"

text \<open>The state in which \<open>main\<close> enters the loop.\<close>

definition initial :: "string \<Rightarrow> message list \<Rightarrow> string \<Rightarrow> world \<Rightarrow> state" where
  "initial system_prompt history user_msg w =
     \<lparr>messages = [\<lparr>role = System, content = system_prompt\<rparr>] @ history @ [user_message user_msg],
      world = w, trace = [], status = Continue\<rparr>"

section \<open>Sample environments\<close>

text \<open>
  Concrete collaborators for the examples: three behaviours of the outside during
  a sleep, a world without markers, the value of \<^verbatim>\<open>json.loads\<close> on the sample
  replies, a backend that answers from a script (the reply number is the number of
  assistant messages sent), and a \<^verbatim>\<open>subprocess.run\<close> that knows three commands.
\<close>

definition lock_after_two :: "world \<Rightarrow> world" where
  "lock_after_two w = w\<lparr>lock_file := (rest w = 1), rest := rest w + 1\<rparr>"

definition deny_after_one :: "world \<Rightarrow> world" where
  "deny_after_one w = w\<lparr>deny_file := True\<rparr>"

definition quiet_world :: world where
  "quiet_world = \<lparr>lock_file = False, deny_file = False, rest = 0\<rparr>"

definition sample_loads :: "string \<Rightarrow> pyval option" where
  \<open>sample_loads s =
     (if s = ''{"terminal": 5}'' then Some (PDict [(''terminal'', PInt 5)])
      else if s = ''{"terminal": "ls"}'' then Some (PDict [(''terminal'', PStr ''ls'')])
      else if s = ''{"terminal": "true"}'' then Some (PDict [(''terminal'', PStr ''true'')])
      else if s = ''{"terminal": "sleep 300"}''
        then Some (PDict [(''terminal'', PStr ''sleep 300'')])
      else if s = ''{"terminal": "rm -rf /tmp/x"}''
        then Some (PDict [(''terminal'', PStr ''rm -rf /tmp/x'')])
      else if s = ''{"message": "Here are your files", "userId": "u1"}''
        then Some (PDict [(''message'', PStr ''Here are your files''), (''userId'', PStr ''u1'')])
      else if s = ''{"message": "hi", "panelActions": "x"}''
        then Some (PDict [(''message'', PStr ''hi''), (''panelActions'', PStr ''x'')])
      else if s = ''{"terminal": "", "message": "done"}''
        then Some (PDict [(''terminal'', PStr ''''), (''message'', PStr ''done'')])
      else if s = ''{"userId": "u1"}'' then Some (PDict [(''userId'', PStr ''u1'')])
      else None)\<close>

definition scripted :: "string list \<Rightarrow> message list \<Rightarrow> world \<Rightarrow> string \<times> world" where
  "scripted replies msgs w =
     (let n = length (filter (\<lambda>m. role m = Assistant) msgs)
      in (if n < length replies then replies ! n else [], w))"

definition sample_run :: "string \<Rightarrow> world \<Rightarrow> outcome \<times> world" where
  "sample_run cmd w =
     (if cmd = ''ls'' then (Completed ''notes.txt'', w)
      else if cmd = ''true'' then (Completed [], w)
      else if cmd = ''rm -rf /tmp/x'' then (Completed [], w)
      else (Raised ''Command timed out after 120 seconds'', w))"

definition sample_env :: "string list \<Rightarrow> bool \<Rightarrow> (world \<Rightarrow> world) \<Rightarrow> env" where
  "sample_env replies hitl slp =
     \<lparr>call_llm = scripted replies, json_loads = sample_loads, subprocess_run = sample_run,
      sleep = slp, hitl_enabled = hitl\<rparr>"

declare wait_loop.simps [simp del]
declare loop.simps [simp del]

lemmas eval_defs = sample_env_def scripted_def sample_loads_def sample_run_def quiet_world_def
  initial_def user_message_def body_def extract_command_def extract_json_fields_def re_search_def
  is_dangerous_def str_strip_def str_split_def is_space_def index0_def dangerous_tools_def
  execute_def emit_final_def extract_user_id_def extract_message_def extract_action_def
  extract_panel_actions_def

section \<open>Properties of the risk classifier\<close>

lemma split_from_token:
  "cur @ takeWhile (\<lambda>c. \<not> is_space c) s \<noteq> [] \<Longrightarrow>
   split_from cur s =
     (cur @ takeWhile (\<lambda>c. \<not> is_space c) s) #
       split_from [] (dropWhile (\<lambda>c. \<not> is_space c) s)"
  by (induction s arbitrary: cur) auto

lemma split_from_skip: "split_from [] s = split_from [] (dropWhile is_space s)"
  by (induction s) auto

lemma rstrip_decomp: "xs = rev (dropWhile P (rev xs)) @ rev (takeWhile P (rev xs))"
  by (metis rev_append rev_rev_ident takeWhile_dropWhile_id)

lemma takeWhile_rstrip:
  "takeWhile (\<lambda>c. \<not> P c) (rev (dropWhile P (rev xs))) = takeWhile (\<lambda>c. \<not> P c) xs"
proof -
  let ?a = "rev (dropWhile P (rev xs))" and ?b = "rev (takeWhile P (rev xs))"
  have all: "\<forall>x\<in>set ?b. P x" by (auto dest: set_takeWhileD)
  have "takeWhile (\<lambda>c. \<not> P c) (?a @ ?b) = takeWhile (\<lambda>c. \<not> P c) ?a"
  proof (cases "\<forall>x\<in>set ?a. \<not> P x")
    case True
    then have e1: "takeWhile (\<lambda>c. \<not> P c) (?a @ ?b) = ?a @ takeWhile (\<lambda>c. \<not> P c) ?b"
      by (intro takeWhile_append2) blast
    have e2: "takeWhile (\<lambda>c. \<not> P c) ?b = []" using all by (cases ?b) auto
    have e3: "takeWhile (\<lambda>c. \<not> P c) ?a = ?a"
      by (rule takeWhile_eq_all_conv[THEN iffD2]) (use True in blast)
    show ?thesis unfolding e1 e2 e3 by (rule append_Nil2)
  next
    case False
    then obtain x where "x \<in> set ?a" "\<not> (\<not> P x)" by blast
    then show ?thesis by (rule takeWhile_append1)
  qed
  then show ?thesis using rstrip_decomp [of xs P] by simp
qed

lemma first_token_strip: "first_token (str_strip s) = first_token s"
proof -
  have "dropWhile is_space (str_strip s) = str_strip s"
  proof (cases "dropWhile is_space s")
    case Nil
    show ?thesis unfolding str_strip_def Nil by simp
  next
    case (Cons a as)
    then have na: "\<not> is_space a" by (metis hd_dropWhile list.sel(1) list.distinct(1))
    have "str_strip s \<noteq> []" unfolding str_strip_def Cons using na
      by (simp add: dropWhile_append3)
    moreover have "hd (str_strip s) = a"
      using rstrip_decomp[of "a # as" is_space] calculation unfolding str_strip_def Cons
      by (metis hd_append2 list.sel(1))
    ultimately show ?thesis using na by (cases "str_strip s") auto
  qed
  then show ?thesis
    unfolding first_token_def by (simp add: str_strip_def takeWhile_rstrip)
qed

lemma str_split_first: "first_token s \<noteq> [] \<Longrightarrow> \<exists>ts. str_split s = first_token s # ts"
  unfolding str_split_def first_token_def
  using split_from_skip[of s] split_from_token[of "[]" "dropWhile is_space s"] by simp

lemma strip_empty_iff: "str_strip s = [] \<longleftrightarrow> first_token s = []"
proof
  assume "str_strip s = []"
  then show "first_token s = []"
    using first_token_strip[of s] by (simp add: first_token_def)
next
  assume a: "first_token s = []"
  show "str_strip s = []"
  proof (cases "dropWhile is_space s")
    case Nil
    show ?thesis unfolding str_strip_def Nil by simp
  next
    case (Cons x xs)
    then have "\<not> is_space x" by (metis hd_dropWhile list.sel(1) list.distinct(1))
    then show ?thesis using a Cons by (simp add: first_token_def)
  qed
qed

lemma eq_or_prefix: "(b = t \<or> prefix t b) = prefix t b"
  by auto

lemma is_dangerous_str:
  "is_dangerous (PStr s) = Inr (list_ex (\<lambda>tool. prefix tool (first_token s)) dangerous_tools)"
proof (cases "first_token s = []")
  case True
  then have "str_strip s = []" by (simp add: strip_empty_iff)
  then show ?thesis using True by (simp add: is_dangerous_def dangerous_tools_def)
next
  case False
  then have ne: "str_strip s \<noteq> []" by (simp add: strip_empty_iff)
  from False have "first_token (str_strip s) \<noteq> []" by (simp add: first_token_strip)
  then obtain ts where "str_split (str_strip s) = first_token s # ts"
    using str_split_first[of "str_strip s"] by (auto simp: first_token_strip)
  then show ?thesis using ne
    by (simp add: is_dangerous_def index0_def eq_or_prefix)
qed

text \<open>
  C1, as stated: the classifier returns true exactly when the first token equals or
  is a prefix of a denylist entry. This fails: the first token \<^verbatim>\<open>rmdir\<close> of the
  command \<^verbatim>\<open>rmdir /tmp/x\<close> neither equals nor is a prefix of any entry, and the
  classifier returns true, because the entry \<^verbatim>\<open>rm\<close> is a prefix of the token.
\<close>

theorem is_dangerous_token_prefix_counterexample:
  "first_token ''rmdir /tmp/x'' = ''rmdir'' \<and>
   is_dangerous (PStr ''rmdir /tmp/x'') = Inr True \<and>
   \<not> token_prefix_of_entry ''rmdir /tmp/x''"
  by (simp add: first_token_def token_prefix_of_entry_def is_dangerous_def str_strip_def
      str_split_def is_space_def index0_def dangerous_tools_def)

text \<open>
  C1, amended: for every command string the classifier returns, without raising,
  true exactly when some entry of the denylist is a prefix of (or equal to) the first
  whitespace-delimited token. A command with no token (empty or all whitespace) is
  not dangerous, a first token \<^verbatim>\<open>rm\<close>, \<^verbatim>\<open>sudo\<close> or \<^verbatim>\<open>docker\<close> is dangerous, and
  \<^verbatim>\<open>ls -la\<close> is not.
\<close>

theorem is_dangerous_entry_prefix_of_token:
  "is_dangerous (PStr s) =
     Inr (list_ex (\<lambda>tool. prefix tool (first_token s)) dangerous_tools) \<and>
   (first_token s = [] \<longrightarrow> is_dangerous (PStr s) = Inr False) \<and>
   (first_token s \<in> {''rm'', ''sudo'', ''docker''} \<longrightarrow> is_dangerous (PStr s) = Inr True) \<and>
   is_dangerous (PStr ''ls -la'') = Inr False"
proof (intro conjI impI)
  show "is_dangerous (PStr s) =
     Inr (list_ex (\<lambda>tool. prefix tool (first_token s)) dangerous_tools)"
    by (rule is_dangerous_str)
  show "is_dangerous (PStr s) = Inr False" if "first_token s = []"
    using that by (simp add: is_dangerous_str dangerous_tools_def)
  show "is_dangerous (PStr s) = Inr True" if "first_token s \<in> {''rm'', ''sudo'', ''docker''}"
    using that by (auto simp: is_dangerous_str dangerous_tools_def)
  show "is_dangerous (PStr ''ls -la'') = Inr False"
    by (simp add: is_dangerous_str dangerous_tools_def first_token_def is_space_def)
qed

theorem is_dangerous_entry_prefix_of_token_witness:
  "first_token ''   '' = [] \<and> is_dangerous (PStr ''   '') = Inr False \<and>
   first_token ''sudo reboot'' \<in> {''rm'', ''sudo'', ''docker''} \<and>
   is_dangerous (PStr ''sudo reboot'') = Inr True"
proof -
  have a: "first_token ''   '' = []" by (simp add: first_token_def is_space_def)
  have b: "first_token ''sudo reboot'' \<in> {''rm'', ''sudo'', ''docker''}"
    by (simp add: first_token_def is_space_def)
  show ?thesis
    using a b is_dangerous_entry_prefix_of_token [of "''   ''"]
      is_dangerous_entry_prefix_of_token [of "''sudo reboot''"]
    by blast
qed

section \<open>Properties of the approval gate\<close>



lemma wait_loop_lock:
  "waited < 600 \<Longrightarrow> lock_file w \<Longrightarrow>
   wait_loop slp waited w tr =
     (True, w\<lparr>lock_file := False\<rparr>, tr @ [PrintProgress ''[HITL] Approved!''])"
  by (subst wait_loop.simps) simp

lemma wait_loop_deny:
  "waited < 600 \<Longrightarrow> \<not> lock_file w \<Longrightarrow> deny_file w \<Longrightarrow>
   wait_loop slp waited w tr =
     (False, w\<lparr>deny_file := False\<rparr>, tr @ [PrintProgress ''[HITL] Denied!''])"
  by (subst wait_loop.simps) simp

lemma wait_loop_quiet:
  "waited < 600 \<Longrightarrow> \<not> lock_file w \<Longrightarrow> \<not> deny_file w \<Longrightarrow>
   wait_loop slp waited w tr = wait_loop slp (waited + 1) (slp w) (tr @ [Sleep])"
  by (subst wait_loop.simps) simp

lemma wait_loop_ceiling:
  "\<not> waited < 600 \<Longrightarrow> wait_loop slp waited w tr = (False, w, tr)"
  by (subst wait_loop.simps) simp

lemma wait_loop_skip:
  "waited + k \<le> 600 \<Longrightarrow>
   \<forall>j<k. \<not> lock_file ((slp ^^ j) w) \<and> \<not> deny_file ((slp ^^ j) w) \<Longrightarrow>
   wait_loop slp waited w tr =
     wait_loop slp (waited + k) ((slp ^^ k) w) (tr @ replicate k Sleep)"
proof (induction k arbitrary: waited w tr)
  case 0
  then show ?case by simp
next
  case (Suc k)
  from Suc.prems(2) have q0: "\<not> lock_file w" "\<not> deny_file w" by force+
  have q: "\<forall>j<k. \<not> lock_file ((slp ^^ j) (slp w)) \<and> \<not> deny_file ((slp ^^ j) (slp w))"
  proof (intro allI impI)
    fix j assume "j < k"
    then have "Suc j < Suc k" by simp
    with Suc.prems(2) have "\<not> lock_file ((slp ^^ Suc j) w) \<and> \<not> deny_file ((slp ^^ Suc j) w)"
      by blast
    then show "\<not> lock_file ((slp ^^ j) (slp w)) \<and> \<not> deny_file ((slp ^^ j) (slp w))"
      by (simp add: funpow_swap1)
  qed
  have "wait_loop slp waited w tr = wait_loop slp (waited + 1) (slp w) (tr @ [Sleep])"
    using Suc.prems(1) q0 by (intro wait_loop_quiet) auto
  also have "\<dots> = wait_loop slp (waited + 1 + k) ((slp ^^ k) (slp w)) ((tr @ [Sleep]) @ replicate k Sleep)"
    using Suc.prems(1) q by (intro Suc.IH) auto
  finally show ?case by (simp add: funpow_swap1 replicate_append_same)
qed

text \<open>
  C4: the gate polls, sleeping one time unit between polls, at most 600 times.
  Let \<open>k\<close> be the first poll at which a marker is present (the polls before it see
  none; \<open>(slp ^^ j) w\<close> is the world at poll \<open>j\<close>). If \<open>k\<close> is before the ceiling and
  the approved marker is present, the gate removes it and returns approved; if only
  the denied marker is present, the gate removes it and returns denied; if no marker
  is seen at any of the 600 polls, the gate returns denied and removes nothing.
\<close>

theorem wait_for_approval_first_marker:
  assumes "\<forall>j<k. \<not> lock_file ((slp ^^ j) w) \<and> \<not> deny_file ((slp ^^ j) w)"
  shows "(k < 600 \<and> lock_file ((slp ^^ k) w) \<longrightarrow>
            wait_for_approval slp w tr =
              (True, ((slp ^^ k) w)\<lparr>lock_file := False\<rparr>,
               tr @ [PrintProgress ''[HITL] Waiting for approval...''] @ replicate k Sleep @
                 [PrintProgress ''[HITL] Approved!''])) \<and>
         (k < 600 \<and> \<not> lock_file ((slp ^^ k) w) \<and> deny_file ((slp ^^ k) w) \<longrightarrow>
            wait_for_approval slp w tr =
              (False, ((slp ^^ k) w)\<lparr>deny_file := False\<rparr>,
               tr @ [PrintProgress ''[HITL] Waiting for approval...''] @ replicate k Sleep @
                 [PrintProgress ''[HITL] Denied!''])) \<and>
         (k = 600 \<longrightarrow>
            wait_for_approval slp w tr =
              (False, (slp ^^ 600) w,
               tr @ [PrintProgress ''[HITL] Waiting for approval...''] @ replicate 600 Sleep))"
proof -
  have skip: "wait_for_approval slp w tr =
      wait_loop slp k ((slp ^^ k) w)
        ((tr @ [PrintProgress ''[HITL] Waiting for approval...'']) @ replicate k Sleep)"
    if "k \<le> 600"
    unfolding wait_for_approval_def using wait_loop_skip [of 0 k slp w] that assms by simp
  show ?thesis
  proof (intro conjI impI)
    assume "k < 600 \<and> lock_file ((slp ^^ k) w)"
    then show "wait_for_approval slp w tr =
              (True, ((slp ^^ k) w)\<lparr>lock_file := False\<rparr>,
               tr @ [PrintProgress ''[HITL] Waiting for approval...''] @ replicate k Sleep @
                 [PrintProgress ''[HITL] Approved!''])"
      using skip by (simp add: wait_loop_lock)
  next
    assume "k < 600 \<and> \<not> lock_file ((slp ^^ k) w) \<and> deny_file ((slp ^^ k) w)"
    then show "wait_for_approval slp w tr =
              (False, ((slp ^^ k) w)\<lparr>deny_file := False\<rparr>,
               tr @ [PrintProgress ''[HITL] Waiting for approval...''] @ replicate k Sleep @
                 [PrintProgress ''[HITL] Denied!''])"
      using skip by (simp add: wait_loop_deny)
  next
    assume "k = 600"
    then show "wait_for_approval slp w tr =
              (False, (slp ^^ 600) w,
               tr @ [PrintProgress ''[HITL] Waiting for approval...''] @ replicate 600 Sleep)"
      using skip by (simp add: wait_loop_ceiling)
  qed
qed

lemma all_less_2: "(\<forall>j<Suc (Suc 0). P j) = (P 0 \<and> P (Suc 0))"
  by (auto simp: less_Suc_eq)

theorem wait_for_approval_first_marker_witness:
  "wait_for_approval lock_after_two quiet_world [] =
     (True, \<lparr>lock_file = False, deny_file = False, rest = 2\<rparr>,
      [PrintProgress ''[HITL] Waiting for approval...'', Sleep, Sleep,
       PrintProgress ''[HITL] Approved!'']) \<and>
   wait_for_approval deny_after_one quiet_world [] =
     (False, \<lparr>lock_file = False, deny_file = False, rest = 0\<rparr>,
      [PrintProgress ''[HITL] Waiting for approval...'', Sleep,
       PrintProgress ''[HITL] Denied!'']) \<and>
   wait_for_approval id quiet_world [] =
     (False, quiet_world, PrintProgress ''[HITL] Waiting for approval...'' # replicate 600 Sleep)"
proof -
  have a: "\<forall>j<Suc (Suc 0). \<not> lock_file ((lock_after_two ^^ j) quiet_world) \<and>
             \<not> deny_file ((lock_after_two ^^ j) quiet_world)"
    by (simp add: all_less_2 lock_after_two_def quiet_world_def)
  have b: "\<forall>j<Suc 0. \<not> lock_file ((deny_after_one ^^ j) quiet_world) \<and>
             \<not> deny_file ((deny_after_one ^^ j) quiet_world)"
    by (simp add: quiet_world_def)
  have c: "\<forall>j<600. \<not> lock_file ((id ^^ j) quiet_world) \<and> \<not> deny_file ((id ^^ j) quiet_world)"
    by (simp add: quiet_world_def)
  show ?thesis
    using wait_for_approval_first_marker [OF a, of "[]"]
      wait_for_approval_first_marker [OF b, of "[]"]
      wait_for_approval_first_marker [OF c, of "[]"]
    by (simp add: lock_after_two_def deny_after_one_def quiet_world_def)
qed

text \<open>
  C9: at every poll the approved marker is checked first: with the approved marker
  present (whether or not the denied marker is), the gate returns approved, removes
  the approved marker only and leaves the denied marker as it was. A marker present
  when the gate is invoked is consumed at the first poll, before any sleep.
\<close>

theorem approved_checked_first:
  "(waited < 600 \<and> lock_file w \<longrightarrow>
      wait_loop slp waited w tr =
        (True, w\<lparr>lock_file := False\<rparr>, tr @ [PrintProgress ''[HITL] Approved!'']) \<and>
      deny_file (fst (snd (wait_loop slp waited w tr))) = deny_file w) \<and>
   (lock_file w \<longrightarrow>
      wait_for_approval slp w tr =
        (True, w\<lparr>lock_file := False\<rparr>,
         tr @ [PrintProgress ''[HITL] Waiting for approval...'', PrintProgress ''[HITL] Approved!''])) \<and>
   (\<not> lock_file w \<and> deny_file w \<longrightarrow>
      wait_for_approval slp w tr =
        (False, w\<lparr>deny_file := False\<rparr>,
         tr @ [PrintProgress ''[HITL] Waiting for approval...'', PrintProgress ''[HITL] Denied!'']))"
  by (simp add: wait_for_approval_def wait_loop_lock wait_loop_deny)

theorem approved_checked_first_witness:
  "wait_loop lock_after_two 7 \<lparr>lock_file = True, deny_file = True, rest = 0\<rparr> [] =
     (True, \<lparr>lock_file = False, deny_file = True, rest = 0\<rparr>, [PrintProgress ''[HITL] Approved!'']) \<and>
   wait_for_approval lock_after_two \<lparr>lock_file = True, deny_file = True, rest = 0\<rparr> [] =
     (True, \<lparr>lock_file = False, deny_file = True, rest = 0\<rparr>,
      [PrintProgress ''[HITL] Waiting for approval...'', PrintProgress ''[HITL] Approved!'']) \<and>
   wait_for_approval lock_after_two \<lparr>lock_file = False, deny_file = True, rest = 0\<rparr> [] =
     (False, \<lparr>lock_file = False, deny_file = False, rest = 0\<rparr>,
      [PrintProgress ''[HITL] Waiting for approval...'', PrintProgress ''[HITL] Denied!''])"
  using approved_checked_first [of 7 "\<lparr>lock_file = True, deny_file = True, rest = 0\<rparr>" lock_after_two "[]"]
    approved_checked_first [of 7 "\<lparr>lock_file = False, deny_file = True, rest = 0\<rparr>" lock_after_two "[]"]
  by simp

section \<open>Properties of the response parser\<close>

lemma has_brace_pair_close: "has_brace_pair r \<Longrightarrow> CHR ''}'' \<in> set r"
  by (induction r) auto

lemma has_brace_pair_iff:
  "has_brace_pair r \<longleftrightarrow>
   (\<exists>i j. i < j \<and> j < length r \<and> r ! i = CHR ''{'' \<and> r ! j = CHR ''}'')"
proof (induction r)
  case Nil
  then show ?case by simp
next
  case (Cons c cs)
  show ?case
  proof
    assume "has_brace_pair (c # cs)"
    then consider "c = CHR ''{''" "CHR ''}'' \<in> set cs" | "has_brace_pair cs" by auto
    then show "\<exists>i j. i < j \<and> j < length (c # cs) \<and> (c # cs) ! i = CHR ''{'' \<and> (c # cs) ! j = CHR ''}''"
    proof cases
      case 1
      then obtain j where "j < length cs" "cs ! j = CHR ''}''" by (auto simp: in_set_conv_nth)
      then have "0 < Suc j \<and> Suc j < length (c # cs) \<and> (c # cs) ! 0 = CHR ''{'' \<and> (c # cs) ! Suc j = CHR ''}''"
        using 1 by simp
      then show ?thesis by blast
    next
      case 2
      then obtain i j where "i < j" "j < length cs" "cs ! i = CHR ''{''" "cs ! j = CHR ''}''"
        using Cons.IH by blast
      then have "Suc i < Suc j \<and> Suc j < length (c # cs) \<and> (c # cs) ! Suc i = CHR ''{'' \<and> (c # cs) ! Suc j = CHR ''}''"
        by simp
      then show ?thesis by blast
    qed
  next
    assume "\<exists>i j. i < j \<and> j < length (c # cs) \<and> (c # cs) ! i = CHR ''{'' \<and> (c # cs) ! j = CHR ''}''"
    then obtain i j where ij: "i < j" "j < length (c # cs)" "(c # cs) ! i = CHR ''{''" "(c # cs) ! j = CHR ''}''"
      by blast
    then obtain j' where j': "j = Suc j'" by (cases j) auto
    show "has_brace_pair (c # cs)"
    proof (cases i)
      case 0
      then have "c = CHR ''{''" using ij by simp
      moreover have "CHR ''}'' \<in> set cs" using ij j' by (auto simp: in_set_conv_nth)
      ultimately show ?thesis by simp
    next
      case (Suc i')
      then have "i' < j' \<and> j' < length cs \<and> cs ! i' = CHR ''{'' \<and> cs ! j' = CHR ''}''"
        using ij j' by simp
      then have "has_brace_pair cs" using Cons.IH by blast
      then show ?thesis by simp
    qed
  qed
qed

lemma re_search_Cons:
  "re_search (c # cs) =
     (if c = CHR ''{'' then
        (if CHR ''}'' \<in> set cs
         then Some (0, rev (dropWhile (\<lambda>c. c \<noteq> CHR ''}'') (rev (c # cs)))) else None)
      else map_option (\<lambda>(i, m). (Suc i, m)) (re_search cs))"
  by (cases "c = CHR ''{''") (auto simp: re_search_def Let_def)

lemma re_search_None_iff: "re_search r = None \<longleftrightarrow> \<not> has_brace_pair r"
proof (induction r)
  case Nil
  then show ?case by (simp add: re_search_def)
next
  case (Cons c cs)
  then show ?case using has_brace_pair_close[of cs] by (auto simp: re_search_Cons)
qed

lemma greedy_span:
  "CHR ''}'' \<in> set t \<Longrightarrow>
   rev (dropWhile (\<lambda>c. c \<noteq> CHR ''}'') (rev (CHR ''{'' # t))) =
     CHR ''{'' # rev (dropWhile (\<lambda>c. c \<noteq> CHR ''}'') (rev t))"
  by (simp add: dropWhile_append1)

lemma re_search_Some:
  "re_search r = Some (start, m) \<Longrightarrow>
   start = length (takeWhile (\<lambda>c. c \<noteq> CHR ''{'') r) \<and> (\<exists>b. m = CHR ''{'' # b)"
proof (induction r arbitrary: start)
  case Nil
  then show ?case by (simp add: re_search_def)
next
  case (Cons c cs)
  show ?case
  proof (cases "c = CHR ''{''")
    case True
    with Cons.prems show ?thesis
      by (auto simp: re_search_Cons dropWhile_append1 split: if_splits)
  next
    case False
    with Cons.prems obtain i where "re_search cs = Some (i, m)" "start = Suc i"
      by (auto simp: re_search_Cons)
    with Cons.IH[of i] False show ?thesis by simp
  qed
qed

lemma re_search_prose_object:
  assumes "CHR ''{'' \<notin> set prose"
  shows "re_search (prose @ CHR ''{'' # b @ ''}'') = Some (length prose, CHR ''{'' # b @ ''}'')"
proof -
  have t: "takeWhile (\<lambda>c. c \<noteq> CHR ''{'') (prose @ CHR ''{'' # b @ ''}'') = prose"
    using assms by (induction prose) auto
  have "prose @ CHR ''{'' # b @ ''}'' =
        takeWhile (\<lambda>c. c \<noteq> CHR ''{'') (prose @ CHR ''{'' # b @ ''}'') @
        dropWhile (\<lambda>c. c \<noteq> CHR ''{'') (prose @ CHR ''{'' # b @ ''}'')"
    by simp
  then have d: "dropWhile (\<lambda>c. c \<noteq> CHR ''{'') (prose @ CHR ''{'' # b @ ''}'') = CHR ''{'' # b @ ''}''"
    unfolding t by simp
  show ?thesis unfolding re_search_def Let_def t d by simp
qed

lemma extract_json_fields_dict:
  assumes "decodes_objects loads"
  shows "\<exists>kv js. extract_json_fields loads r = (PDict kv, js)"
proof (cases "re_search r")
  case None
  then show ?thesis by (simp add: extract_json_fields_def)
next
  case (Some p)
  obtain start m where p: "p = (start, m)" by (cases p)
  then obtain b where m: "m = CHR ''{'' # b" using Some re_search_Some by blast
  show ?thesis
  proof (cases "loads m")
    case None
    then show ?thesis using Some p by (simp add: extract_json_fields_def)
  next
    case (Some v)
    then obtain kv where "v = PDict kv" using assms m unfolding decodes_objects_def by blast
    then show ?thesis using Some \<open>re_search r = Some p\<close> p by (simp add: extract_json_fields_def)
  qed
qed

lemma sample_loads_decodes_objects: "decodes_objects sample_loads"
  unfolding decodes_objects_def sample_loads_def by (auto split: if_splits)

text \<open>
  C6: for every raw text without a brace pair the parser returns no command and, as
  message, the raw text trimmed. When the text has a match and the object decoded
  from it has no \<^verbatim>\<open>message\<close> field, or a falsy one, the message is the text before
  the match, trimmed; this is the case of prose without \<^verbatim>\<open>{\<close> followed by the text
  of an object. No function of the parser raises, for a decoder that returns a
  \<^verbatim>\<open>dict\<close> on texts starting with \<^verbatim>\<open>{\<close>.
\<close>

theorem parser_fallback:
  "(\<not> has_brace_pair r \<longrightarrow>
      extract_command loads r = Inr (PNone, PNone) \<and>
      extract_message loads r = Inr (PStr (str_strip r))) \<and>
   (re_search r = Some (start, json_str) \<and> loads json_str = Some (PDict kv) \<and>
      field_falsy kv ''message'' \<longrightarrow>
      extract_message loads r = Inr (PStr (str_strip (take start r)))) \<and>
   (CHR ''{'' \<notin> set prose \<and> loads (CHR ''{'' # b @ ''}'') = Some (PDict kv) \<and>
      field_falsy kv ''message'' \<longrightarrow>
      extract_message loads (prose @ CHR ''{'' # b @ ''}'') = Inr (PStr (str_strip prose))) \<and>
   (decodes_objects loads \<longrightarrow>
      (\<exists>data js. extract_json_fields loads r = (PDict data, js)) \<and>
      (\<exists>cmd. extract_command loads r = Inr cmd) \<and>
      (\<exists>msg. extract_message loads r = Inr msg) \<and>
      (\<exists>uid. extract_user_id loads r = Inr uid) \<and>
      (\<exists>act. extract_action loads r = Inr act) \<and>
      (\<exists>pa. extract_panel_actions loads r = Inr pa))"
proof (intro conjI impI)
  assume "\<not> has_brace_pair r"
  then have n: "re_search r = None" by (simp add: re_search_None_iff)
  show "extract_command loads r = Inr (PNone, PNone)"
    by (simp add: extract_command_def extract_json_fields_def n)
  show "extract_message loads r = Inr (PStr (str_strip r))"
    by (simp add: extract_message_def extract_json_fields_def n)
next
  assume "re_search r = Some (start, json_str) \<and> loads json_str = Some (PDict kv) \<and>
      field_falsy kv ''message''"
  then show "extract_message loads r = Inr (PStr (str_strip (take start r)))"
    by (auto simp: extract_message_def extract_json_fields_def field_falsy_def
        split: option.splits)
next
  assume a: "CHR ''{'' \<notin> set prose \<and> loads (CHR ''{'' # b @ ''}'') = Some (PDict kv) \<and>
      field_falsy kv ''message''"
  then have "re_search (prose @ CHR ''{'' # b @ ''}'') = Some (length prose, CHR ''{'' # b @ ''}'')"
    by (simp add: re_search_prose_object)
  with a show "extract_message loads (prose @ CHR ''{'' # b @ ''}'') = Inr (PStr (str_strip prose))"
    by (auto simp: extract_message_def extract_json_fields_def field_falsy_def
        split: option.splits)
next
  assume "decodes_objects loads"
  then obtain data js where d: "extract_json_fields loads r = (PDict data, js)"
    using extract_json_fields_dict by blast
  show "\<exists>data js. extract_json_fields loads r = (PDict data, js)" using d by blast
  show "\<exists>cmd. extract_command loads r = Inr cmd" by (simp add: extract_command_def d)
  show "\<exists>msg. extract_message loads r = Inr msg"
    by (simp add: extract_message_def d split: option.splits)
  show "\<exists>uid. extract_user_id loads r = Inr uid" by (simp add: extract_user_id_def d)
  show "\<exists>act. extract_action loads r = Inr act" by (simp add: extract_action_def d)
  show "\<exists>pa. extract_panel_actions loads r = Inr pa"
    by (simp add: extract_panel_actions_def d split: pyval.splits)
qed

theorem parser_fallback_witness:
  \<open>\<not> has_brace_pair ''All done.  '' \<and>
   extract_command sample_loads ''All done.  '' = Inr (PNone, PNone) \<and>
   extract_message sample_loads ''All done.  '' = Inr (PStr ''All done.'') \<and>
   extract_message sample_loads ''Sure thing. {"userId": "u1"}'' = Inr (PStr ''Sure thing.'') \<and>
   decodes_objects sample_loads \<and>
   (\<exists>cmd. extract_command sample_loads ''{"terminal": 5}'' = Inr cmd)\<close>
proof -
  have a: \<open>\<not> has_brace_pair ''All done.  ''\<close> by simp
  have b: \<open>CHR ''{'' \<notin> set ''Sure thing. '' \<and>
      sample_loads (CHR ''{'' # ''"userId": "u1"'' @ ''}'') = Some (PDict [(''userId'', PStr ''u1'')]) \<and>
      field_falsy [(''userId'', PStr ''u1'')] ''message''\<close>
    by (simp add: sample_loads_def field_falsy_def)
  have s: "str_strip ''All done.  '' = ''All done.''" "str_strip ''Sure thing. '' = ''Sure thing.''"
    by (simp_all add: str_strip_def is_space_def)
  show ?thesis
    using a b s sample_loads_decodes_objects
      parser_fallback [of "''All done.  ''" sample_loads _ _ "[(''userId'', PStr ''u1'')]"
         "''Sure thing. ''" \<open>''"userId": "u1"''\<close>]
      parser_fallback [of \<open>''{"terminal": 5}''\<close> sample_loads _ _ "[]" "[]" "[]"]
    by simp
qed

section \<open>Properties of the conversation loop\<close>

lemma emit_final_object:
  assumes "re_search response = Some (start, json_str)"
    and "json_loads E json_str = Some (PDict kv)" and "kv \<noteq> []"
  shows "emit_final E response st =
           st\<lparr>trace := trace st @ [PrintJson (final_object (take start response) kv)],
              status := Break\<rparr>"
  using assms
  by (simp add: emit_final_def extract_user_id_def extract_message_def extract_action_def
      extract_json_fields_def final_object_def field_or_def field_falsy_def
      split: option.splits)

lemma emit_final_plain:
  assumes "extract_json_fields (json_loads E) response = (PDict [], js)"
  shows "emit_final E response st =
           st\<lparr>trace := trace st @
                [PrintMessage (PStr (str_strip (case re_search response of
                    None \<Rightarrow> response | Some (start, _) \<Rightarrow> take start response)))],
              status := Break\<rparr>"
  using assms
  by (simp add: emit_final_def extract_user_id_def extract_message_def extract_action_def
      split: option.splits)

lemma body_no_command:
  assumes "call_llm E (messages st) (world st) = (response, w1)"
    and "extract_command (json_loads E) response = Inr (cmd, x)" and "\<not> truthy cmd"
  shows "body E st = emit_final E response (after_reply st response w1)"
  using assms by (simp add: body_def after_reply_def)

lemma body_command:
  assumes "call_llm E (messages st) (world st) = (response, w1)"
    and "extract_command (json_loads E) response = Inr (PStr c, x)" and "c \<noteq> []"
    and "is_dangerous (PStr c) = Inr d"
  shows "body E st =
     (if d \<and> hitl_enabled E then
        (case wait_for_approval (sleep E) w1
                (trace st @ [LlmCall (messages st),
                   PrintProgress (''[HITL] APPROVAL_REQUIRED: '' @ c)]) of
           (approved, w2, tr2) \<Rightarrow>
             if \<not> approved then
               (after_reply st response w1)\<lparr>world := w2, trace := tr2,
                  messages := messages st @ [\<lparr>role = Assistant, content = response\<rparr>,
                     user_message ''ERROR: Command denied by user'']\<rparr>
             else execute E c
                    ((after_reply st response w1)\<lparr>world := w2,
                       trace := tr2 @ [PrintProgress (''[HITL] EXECUTING: '' @ c)]\<rparr>))
      else execute E c (after_reply st response w1))"
  using assms by (simp add: body_def after_reply_def Let_def split: prod.splits)

lemma is_dangerous_str_only: "is_dangerous cmd = Inr d \<Longrightarrow> \<exists>c. cmd = PStr c"
  by (cases cmd) (simp_all add: is_dangerous_def)

lemma wait_loop_events:
  "wait_loop slp waited w tr = (b, w', tr') \<Longrightarrow>
   \<exists>evs. tr' = tr @ evs \<and> (\<forall>e\<in>set evs. \<not> is_run e \<and> \<not> is_final e \<and> \<not> is_llm_call e)"
proof (induction slp waited w tr rule: wait_loop.induct)
  case (1 slp waited w tr)
  show ?case
  proof (cases "waited < 600")
    case False
    with "1.prems" show ?thesis by (simp add: wait_loop_ceiling)
  next
    case True
    show ?thesis
    proof (cases "lock_file w")
      case l: True
      with True "1.prems" show ?thesis
        by (auto simp: wait_loop_lock is_run_def is_final_def is_llm_call_def)
    next
      case l: False
      show ?thesis
      proof (cases "deny_file w")
        case d: True
        with True l "1.prems" show ?thesis
          by (auto simp: wait_loop_deny is_run_def is_final_def is_llm_call_def)
      next
        case d: False
        from True l d "1.prems"
        have "wait_loop slp (waited + 1) (slp w) (tr @ [Sleep]) = (b, w', tr')"
          by (simp add: wait_loop_quiet)
        from "1.IH"[OF True l d this] obtain evs where
          "tr' = (tr @ [Sleep]) @ evs" "\<forall>e\<in>set evs. \<not> is_run e \<and> \<not> is_final e \<and> \<not> is_llm_call e"
          by blast
        then have "tr' = tr @ (Sleep # evs) \<and>
           (\<forall>e\<in>set (Sleep # evs). \<not> is_run e \<and> \<not> is_final e \<and> \<not> is_llm_call e)"
          by (simp add: is_run_def is_final_def is_llm_call_def)
        then show ?thesis by blast
      qed
    qed
  qed
qed

lemma wait_for_approval_events:
  "wait_for_approval slp w tr = (b, w', tr') \<Longrightarrow>
   \<exists>evs. tr' = tr @ evs \<and> (\<forall>e\<in>set evs. \<not> is_run e \<and> \<not> is_final e \<and> \<not> is_llm_call e)"
proof -
  assume "wait_for_approval slp w tr = (b, w', tr')"
  then obtain evs where "tr' = (tr @ [PrintProgress ''[HITL] Waiting for approval...'']) @ evs"
    "\<forall>e\<in>set evs. \<not> is_run e \<and> \<not> is_final e \<and> \<not> is_llm_call e"
    unfolding wait_for_approval_def using wait_loop_events by blast
  then have "tr' = tr @ (PrintProgress ''[HITL] Waiting for approval...'' # evs) \<and>
     (\<forall>e\<in>set (PrintProgress ''[HITL] Waiting for approval...'' # evs).
        \<not> is_run e \<and> \<not> is_final e \<and> \<not> is_llm_call e)"
    by (simp add: is_run_def is_final_def is_llm_call_def)
  then show ?thesis by blast
qed

lemma execute_fields:
  "status (execute E c st) = status st"
  "trace (execute E c st) = trace st @ [Run c]"
  "messages (execute E c st) =
     messages st @
       [user_message (case fst (subprocess_run E c (world st)) of
          Completed out \<Rightarrow> ''[INTERNAL_COMMAND_OUTPUT]'' @ [CHR 0x0A] @
             (if out = [] then ''Command executed successfully with no output.'' else out)
        | Raised e \<Rightarrow> ''ERROR executing command: '' @ e)]"
  by (simp_all add: execute_def split: prod.splits outcome.splits)

lemma extract_command_truthy:
  "extract_command loads r = Inr (cmd, x) \<Longrightarrow> cmd \<noteq> PNone \<Longrightarrow> truthy cmd"
  by (auto simp: extract_command_def split: prod.splits sum.splits if_splits)

lemma extract_command_dict:
  "extract_command loads r = Inr c \<Longrightarrow> \<exists>kv js. extract_json_fields loads r = (PDict kv, js)"
proof -
  assume a: "extract_command loads r = Inr c"
  obtain data js where d: "extract_json_fields loads r = (data, js)" by (cases "extract_json_fields loads r")
  with a show ?thesis by (cases data) (simp_all add: extract_command_def)
qed

lemma emit_final_break:
  assumes "extract_json_fields (json_loads E) r = (PDict kv, js)"
  shows "\<exists>out. is_final out \<and> emit_final E r st = st\<lparr>trace := trace st @ [out], status := Break\<rparr>"
proof -
  obtain u where u: "extract_user_id (json_loads E) r = Inr u"
    using assms by (simp add: extract_user_id_def)
  obtain a where a: "extract_action (json_loads E) r = Inr a"
    using assms by (simp add: extract_action_def)
  have "\<exists>m. extract_message (json_loads E) r = Inr m"
    by (simp add: extract_message_def assms split: option.splits)
  then obtain m where m: "extract_message (json_loads E) r = Inr m" by blast
  obtain p where p: "dict_get (PDict kv) ''panelActions'' (PList []) = Inr p" by simp
  have eq: "emit_final E r st =
      (if kv \<noteq> [] then
         st\<lparr>trace := trace st @
              [PrintJson (PDict [(''userId'', u), (''message'', m), (''action'', a),
                 (''terminal'', PStr []), (''panelActions'', p)])],
            status := Break\<rparr>
       else st\<lparr>trace := trace st @ [PrintMessage m], status := Break\<rparr>)"
    unfolding emit_final_def u a m assms using p by simp
  show ?thesis
  proof (cases "kv = []")
    case True
    with eq have "is_final (PrintMessage m) \<and>
        emit_final E r st = st\<lparr>trace := trace st @ [PrintMessage m], status := Break\<rparr>"
      by (simp add: is_final_def)
    then show ?thesis by blast
  next
    case False
    let ?out = "PrintJson (PDict [(''userId'', u), (''message'', m), (''action'', a),
                 (''terminal'', PStr []), (''panelActions'', p)])"
    from False eq have "is_final ?out \<and>
        emit_final E r st = st\<lparr>trace := trace st @ [?out], status := Break\<rparr>"
      by (simp add: is_final_def)
    then show ?thesis by blast
  qed
qed

lemma loop_step:
  "iters < max_iters \<Longrightarrow> status (body E st) = Continue \<Longrightarrow>
   loop E iters st = loop E (iters + 1) (body E st)"
  by (subst loop.simps) (simp add: Let_def)

lemma loop_stop:
  "iters < max_iters \<Longrightarrow> status (body E st) \<noteq> Continue \<Longrightarrow> loop E iters st = body E st"
  by (subst loop.simps) (simp add: Let_def)

lemma loop_exhausted: "\<not> iters < max_iters \<Longrightarrow> loop E iters st = st"
  by (subst loop.simps) simp

text \<open>What one pass adds to the trace and does to the status.\<close>

lemma body_effect:
  "\<exists>evs. trace (body E st) = trace st @ LlmCall (messages st) # evs \<and>
         (\<forall>e\<in>set evs. \<not> is_llm_call e) \<and>
         (status (body E st) \<noteq> Break \<longrightarrow> (\<forall>e\<in>set evs. \<not> is_final e)) \<and>
         (yields_command E st \<and> status st \<noteq> Break \<longrightarrow> status (body E st) \<noteq> Break)"
proof -
  obtain response w1 where llm: "call_llm E (messages st) (world st) = (response, w1)"
    by (cases "call_llm E (messages st) (world st)")
  show ?thesis
  proof (cases "extract_command (json_loads E) response")
    case (Inl e)
    then have "body E st = (after_reply st response w1)\<lparr>status := Fault e\<rparr>"
      using llm by (simp add: body_def after_reply_def)
    then show ?thesis by (simp add: after_reply_def)
  next
    case (Inr p)
    obtain cmd x where p: "p = (cmd, x)" by (cases p)
    show ?thesis
    proof (cases "truthy cmd")
      case False
      from Inr obtain kv js where "extract_json_fields (json_loads E) response = (PDict kv, js)"
        using extract_command_dict by blast
      then obtain out where out: "is_final out"
        "emit_final E response (after_reply st response w1) =
           (after_reply st response w1)\<lparr>trace := trace (after_reply st response w1) @ [out], status := Break\<rparr>"
        using emit_final_break by blast
      have "body E st = emit_final E response (after_reply st response w1)"
        using llm Inr p False by (simp add: body_no_command)
      with out False show ?thesis using llm Inr p
        by (simp add: after_reply_def yields_command_def is_llm_call_def is_final_def
            split: event.splits)
    next
      case True
      show ?thesis
      proof (cases "is_dangerous cmd")
        case (Inl e)
        then have "body E st = (after_reply st response w1)\<lparr>status := Fault e\<rparr>"
          using llm Inr p True by (simp add: body_def after_reply_def)
        then show ?thesis by (simp add: after_reply_def)
      next
        case d: (Inr d)
        then obtain c where c: "cmd = PStr c" using is_dangerous_str_only by blast
        with True have ne: "c \<noteq> []" by simp
        note b = body_command [OF llm Inr[unfolded p c] ne d[unfolded c]]
        show ?thesis
        proof (cases "d \<and> hitl_enabled E")
          case False
          then have "body E st = execute E c (after_reply st response w1)" using b by auto
          then show ?thesis
            by (simp add: execute_fields after_reply_def is_llm_call_def is_final_def)
        next
          case gate: True
          obtain approved w2 tr2 where w: "wait_for_approval (sleep E) w1
                (trace st @ [LlmCall (messages st),
                   PrintProgress (''[HITL] APPROVAL_REQUIRED: '' @ c)]) = (approved, w2, tr2)"
            by (metis prod_cases3)
          then obtain evs where evs: "tr2 = (trace st @ [LlmCall (messages st),
                   PrintProgress (''[HITL] APPROVAL_REQUIRED: '' @ c)]) @ evs"
              "\<forall>e\<in>set evs. \<not> is_run e \<and> \<not> is_final e \<and> \<not> is_llm_call e"
            using wait_for_approval_events by blast
          show ?thesis
          proof (cases approved)
            case False
            then have "body E st = (after_reply st response w1)\<lparr>world := w2, trace := tr2,
                  messages := messages st @ [\<lparr>role = Assistant, content = response\<rparr>,
                     user_message ''ERROR: Command denied by user'']\<rparr>"
              using b gate w by simp
            then show ?thesis using evs
              by (simp add: after_reply_def is_llm_call_def is_final_def)
          next
            case True
            then have "body E st = execute E c
                    ((after_reply st response w1)\<lparr>world := w2,
                       trace := tr2 @ [PrintProgress (''[HITL] EXECUTING: '' @ c)]\<rparr>)"
              using b gate w by simp
            then show ?thesis using evs
              by (simp add: execute_fields after_reply_def is_llm_call_def is_final_def)
          qed
        qed
      qed
    qed
  qed
qed

lemma body_calls:
  "length (filter is_llm_call (trace (body E st))) = length (filter is_llm_call (trace st)) + 1"
proof -
  obtain evs where "trace (body E st) = trace st @ LlmCall (messages st) # evs"
    "\<forall>e\<in>set evs. \<not> is_llm_call e"
    using body_effect by blast
  then show ?thesis by (simp add: is_llm_call_def)
qed

lemma loop_calls_le:
  "length (filter is_llm_call (trace (loop E iters st))) \<le>
     length (filter is_llm_call (trace st)) + (max_iters - iters)"
proof (induction E iters st rule: loop.induct)
  case (1 E iters st)
  show ?case
  proof (cases "iters < max_iters")
    case False
    then show ?thesis by (simp add: loop_exhausted)
  next
    case True
    show ?thesis
    proof (cases "status (body E st) = Continue")
      case c: True
      have "length (filter is_llm_call (trace (loop E (iters + 1) (body E st)))) \<le>
          length (filter is_llm_call (trace (body E st))) + (max_iters - (iters + 1))"
        using "1.IH"[OF True refl c] .
      then show ?thesis using True c by (simp add: loop_step body_calls)
    next
      case c: False
      then show ?thesis using True by (simp add: loop_stop body_calls)
    qed
  qed
qed

lemma loop_calls_eq:
  "status (loop E iters st) = Continue \<Longrightarrow> iters \<le> max_iters \<Longrightarrow>
   length (filter is_llm_call (trace (loop E iters st))) =
     length (filter is_llm_call (trace st)) + (max_iters - iters)"
proof (induction E iters st rule: loop.induct)
  case (1 E iters st)
  show ?case
  proof (cases "iters < max_iters")
    case False
    then show ?thesis using "1.prems" by (simp add: loop_exhausted)
  next
    case True
    show ?thesis
    proof (cases "status (body E st) = Continue")
      case c: True
      have "length (filter is_llm_call (trace (loop E (iters + 1) (body E st)))) =
          length (filter is_llm_call (trace (body E st))) + (max_iters - (iters + 1))"
        using "1.IH"[OF True refl c] "1.prems" True c by (simp add: loop_step)
      then show ?thesis using True c by (simp add: loop_step body_calls)
    next
      case c: False
      then show ?thesis using True "1.prems" by (simp add: loop_stop)
    qed
  qed
qed

lemma loop_no_final:
  "all_yield E (max_iters - iters) st \<Longrightarrow> status st \<noteq> Break \<Longrightarrow>
   \<not> list_ex is_final (trace st) \<Longrightarrow>
   status (loop E iters st) \<noteq> Break \<and> \<not> list_ex is_final (trace (loop E iters st))"
proof (induction E iters st rule: loop.induct)
  case (1 E iters st)
  show ?case
  proof (cases "iters < max_iters")
    case False
    then show ?thesis using "1.prems" by (simp add: loop_exhausted)
  next
    case True
    then obtain n where n: "max_iters - iters = Suc n" "max_iters - (iters + 1) = n"
      by (cases "max_iters - iters") auto
    with "1.prems"(1) have y: "yields_command E st"
      and rest: "status (body E st) = Continue \<longrightarrow> all_yield E n (body E st)" by simp_all
    obtain evs where evs: "trace (body E st) = trace st @ LlmCall (messages st) # evs"
      "status (body E st) \<noteq> Break \<longrightarrow> (\<forall>e\<in>set evs. \<not> is_final e)"
      "yields_command E st \<and> status st \<noteq> Break \<longrightarrow> status (body E st) \<noteq> Break"
      using body_effect by blast
    have nb: "status (body E st) \<noteq> Break" using evs(3) y "1.prems"(2) by simp
    have nf: "\<not> list_ex is_final (trace (body E st))"
      using evs(1,2) nb "1.prems"(3) by (auto simp: list_ex_iff is_final_def)
    show ?thesis
    proof (cases "status (body E st) = Continue")
      case c: True
      then show ?thesis
        using "1.IH"[OF True refl c] rest n nb nf True by (simp add: loop_step)
    next
      case c: False
      then show ?thesis using True nb nf by (simp add: loop_stop)
    qed
  qed
qed

lemma main_initial: "main E sp h um w = loop E 0 (initial sp h um w)"
  by (simp add: main_def initial_def)

lemma no_command_cases:
  assumes "decodes_objects (json_loads E)" and "\<not> yields_command E st"
    and "call_llm E (messages st) (world st) = (response, w1)"
  shows "\<exists>cmd x. extract_command (json_loads E) response = Inr (cmd, x) \<and> \<not> truthy cmd"
proof -
  obtain kv js where "extract_json_fields (json_loads E) response = (PDict kv, js)"
    using assms(1) extract_json_fields_dict by blast
  then have "\<exists>p. extract_command (json_loads E) response = Inr p"
    by (simp add: extract_command_def)
  then obtain p where "extract_command (json_loads E) response = Inr p" by blast
  then show ?thesis using assms(2,3) by (cases p) (auto simp: yields_command_def)
qed

text \<open>
  C8: one invocation calls the backend at most 5 times (the loop is a total
  function, so it always ends). If the loop ends by exhausting its budget, it has
  made exactly 5 calls. If every pass performed yields a command, the loop ends
  without a \<^verbatim>\<open>break\<close> and has emitted no final output. At any pass within the
  budget whose reply yields no command, the loop stops in that pass, after emitting
  the final output as the only event following the backend call.
\<close>

theorem loop_budget:
  "length (filter is_llm_call (trace (main E sp h um w))) \<le> 5 \<and>
   (status (main E sp h um w) = Continue \<longrightarrow>
      length (filter is_llm_call (trace (main E sp h um w))) = 5) \<and>
   (all_yield E max_iters (initial sp h um w) \<longrightarrow>
      status (main E sp h um w) \<noteq> Break \<and> \<not> list_ex is_final (trace (main E sp h um w))) \<and>
   (decodes_objects (json_loads E) \<and> iters < max_iters \<and> \<not> yields_command E st \<longrightarrow>
      loop E iters st = body E st \<and> status (body E st) = Break \<and>
      (\<exists>out. is_final out \<and> trace (body E st) = trace st @ [LlmCall (messages st), out]))"
proof (intro conjI impI)
  show "length (filter is_llm_call (trace (main E sp h um w))) \<le> 5"
    using loop_calls_le [of E 0 "initial sp h um w"]
    by (simp add: main_initial initial_def max_iters_def)
  show "length (filter is_llm_call (trace (main E sp h um w))) = 5"
    if "status (main E sp h um w) = Continue"
    using that loop_calls_eq [of E 0 "initial sp h um w"]
    by (simp add: main_initial initial_def max_iters_def)
  assume "all_yield E max_iters (initial sp h um w)"
  then have "status (loop E 0 (initial sp h um w)) \<noteq> Break \<and>
      \<not> list_ex is_final (trace (loop E 0 (initial sp h um w)))"
    by (intro loop_no_final) (simp_all add: initial_def)
  then show "status (main E sp h um w) \<noteq> Break"
    and "\<not> list_ex is_final (trace (main E sp h um w))"
    by (simp_all add: main_initial)
next
  assume a: "decodes_objects (json_loads E) \<and> iters < max_iters \<and> \<not> yields_command E st"
  obtain response w1 where llm: "call_llm E (messages st) (world st) = (response, w1)"
    by (cases "call_llm E (messages st) (world st)")
  with a obtain cmd x where c: "extract_command (json_loads E) response = Inr (cmd, x)" "\<not> truthy cmd"
    using no_command_cases by blast
  then obtain kv js where "extract_json_fields (json_loads E) response = (PDict kv, js)"
    using extract_command_dict by blast
  then obtain out where out: "is_final out"
      "emit_final E response (after_reply st response w1) =
         (after_reply st response w1)\<lparr>trace := trace (after_reply st response w1) @ [out], status := Break\<rparr>"
    using emit_final_break by blast
  have b: "body E st =
      (after_reply st response w1)\<lparr>trace := trace (after_reply st response w1) @ [out], status := Break\<rparr>"
    using body_no_command [OF llm c] out(2) by simp
  then show "status (body E st) = Break" by simp
  then show "loop E iters st = body E st" using a by (simp add: loop_stop)
  have "is_final out \<and> trace (body E st) = trace st @ [LlmCall (messages st), out]"
    using b out(1) by (simp add: after_reply_def)
  then show "\<exists>out. is_final out \<and> trace (body E st) = trace st @ [LlmCall (messages st), out]"
    by blast
qed

lemma five_ls_run:
  \<open>status (main (sample_env (replicate 5 ''{"terminal": "ls"}'') False id) ''sys'' [] ''go'' quiet_world) = Continue\<close>
  by (simp add: main_def max_iters_def loop.simps eval_defs eval_nat_numeral)

lemma five_ls_yield:
  \<open>all_yield (sample_env (replicate 5 ''{"terminal": "ls"}'') False id) max_iters (initial ''sys'' [] ''go'' quiet_world)\<close>
  by (simp add: max_iters_def eval_defs eval_nat_numeral yields_command_def)

lemma final_reply_no_command:
  \<open>\<not> yields_command (sample_env [''{"message": "Here are your files", "userId": "u1"}''] False id)
       (initial ''sys'' [] ''go'' quiet_world)\<close>
  by (simp add: eval_defs yields_command_def)

theorem loop_budget_witness:
  \<open>status (main (sample_env (replicate 5 ''{"terminal": "ls"}'') False id) ''sys'' [] ''go'' quiet_world) = Continue \<and>
   length (filter is_llm_call
     (trace (main (sample_env (replicate 5 ''{"terminal": "ls"}'') False id) ''sys'' [] ''go'' quiet_world))) = 5 \<and>
   all_yield (sample_env (replicate 5 ''{"terminal": "ls"}'') False id) max_iters
     (initial ''sys'' [] ''go'' quiet_world) \<and>
   \<not> list_ex is_final
     (trace (main (sample_env (replicate 5 ''{"terminal": "ls"}'') False id) ''sys'' [] ''go'' quiet_world)) \<and>
   decodes_objects sample_loads \<and>
   \<not> yields_command (sample_env [''{"message": "Here are your files", "userId": "u1"}''] False id)
       (initial ''sys'' [] ''go'' quiet_world) \<and>
   status (body (sample_env [''{"message": "Here are your files", "userId": "u1"}''] False id)
       (initial ''sys'' [] ''go'' quiet_world)) = Break \<and>
   loop (sample_env [''{"message": "Here are your files", "userId": "u1"}''] False id) 0
       (initial ''sys'' [] ''go'' quiet_world) =
     body (sample_env [''{"message": "Here are your files", "userId": "u1"}''] False id)
       (initial ''sys'' [] ''go'' quiet_world)\<close>
proof -
  have d: "decodes_objects (json_loads (sample_env rs False id))" for rs
    using sample_loads_decodes_objects by (simp add: sample_env_def)
  have z: "(0::nat) < max_iters" by (simp add: max_iters_def)
  show ?thesis
    using five_ls_run five_ls_yield final_reply_no_command d z sample_loads_decodes_objects
      loop_budget [of \<open>sample_env (replicate 5 ''{"terminal": "ls"}'') False id\<close>
         "''sys''" "[]" "''go''" quiet_world 0 "initial ''sys'' [] ''go'' quiet_world"]
      loop_budget [of \<open>sample_env [''{"message": "Here are your files", "userId": "u1"}''] False id\<close>
         "''sys''" "[]" "''go''" quiet_world 0 "initial ''sys'' [] ''go'' quiet_world"]
    by blast
qed

text \<open>
  C10: when the object decoded from the reply has a \<^verbatim>\<open>terminal\<close> field whose value
  is falsy, \<open>extract_command\<close> returns no command; the pass then emits the final
  JSON object, runs nothing, and the loop stops in that pass.
\<close>

theorem falsy_terminal_is_final:
  assumes "call_llm E (messages st) (world st) = (response, w1)"
    and "re_search response = Some (start, json_str)"
    and "json_loads E json_str = Some (PDict kv)"
    and "map_of kv ''terminal'' = Some v" and "\<not> truthy v"
  shows "extract_command (json_loads E) response = Inr (PNone, PNone) \<and>
         body E st =
           st\<lparr>messages := messages st @ [\<lparr>role = Assistant, content = response\<rparr>],
              world := w1,
              trace := trace st @ [LlmCall (messages st),
                 PrintJson (final_object (take start response) kv)],
              status := Break\<rparr> \<and>
         (iters < max_iters \<longrightarrow> loop E iters st = body E st)"
proof -
  have c: "extract_command (json_loads E) response = Inr (PNone, PNone)"
    using assms by (simp add: extract_command_def extract_json_fields_def)
  have ne: "kv \<noteq> []" using assms(4) by auto
  have b: "body E st = emit_final E response (after_reply st response w1)"
    using body_no_command [OF assms(1) c] by simp
  have e: "emit_final E response (after_reply st response w1) =
      (after_reply st response w1)\<lparr>trace := trace (after_reply st response w1) @
          [PrintJson (final_object (take start response) kv)], status := Break\<rparr>"
    using assms(2,3) ne by (rule emit_final_object)
  have s: "status (body E st) = Break" using b e by simp
  show ?thesis using c b e s by (simp add: after_reply_def loop_stop)
qed

theorem falsy_terminal_is_final_witness:
  \<open>extract_command sample_loads ''{"terminal": "", "message": "done"}'' = Inr (PNone, PNone) \<and>
   body (sample_env [''{"terminal": "", "message": "done"}''] True id) (initial ''sys'' [] ''hello'' quiet_world) =
     \<lparr>messages = [\<lparr>role = System, content = ''sys''\<rparr>, \<lparr>role = User, content = ''hello''\<rparr>,
                  \<lparr>role = Assistant, content = ''{"terminal": "", "message": "done"}''\<rparr>],
      world = quiet_world,
      trace = [LlmCall [\<lparr>role = System, content = ''sys''\<rparr>, \<lparr>role = User, content = ''hello''\<rparr>],
               PrintJson (PDict [(''userId'', PStr ''''), (''message'', PStr ''done''), (''action'', PStr ''''),
                 (''terminal'', PStr ''''), (''panelActions'', PList [])])],
      status = Break\<rparr> \<and>
   loop (sample_env [''{"terminal": "", "message": "done"}''] True id) 0 (initial ''sys'' [] ''hello'' quiet_world) =
     body (sample_env [''{"terminal": "", "message": "done"}''] True id) (initial ''sys'' [] ''hello'' quiet_world)\<close>
proof -
  let ?r = \<open>''{"terminal": "", "message": "done"}''\<close>
  let ?E = "sample_env [?r] True id"
  let ?st = "initial ''sys'' [] ''hello'' quiet_world"
  let ?kv = "[(''terminal'', PStr ''''), (''message'', PStr ''done'')]"
  have h1: "call_llm ?E (messages ?st) (world ?st) = (?r, quiet_world)"
    by (simp add: sample_env_def scripted_def initial_def user_message_def)
  have h2: "re_search ?r = Some (0, ?r)" by (simp add: re_search_def)
  have h3: "json_loads ?E ?r = Some (PDict ?kv)" by (simp add: sample_env_def sample_loads_def)
  have h4: "map_of ?kv ''terminal'' = Some (PStr '''')" by simp
  have h5: "\<not> truthy (PStr '''')" by simp
  have h6: "(0::nat) < max_iters" by (simp add: max_iters_def)
  show ?thesis
    using falsy_terminal_is_final [OF h1 h2 h3 h4 h5, of 0] h6
    by (simp add: sample_env_def initial_def user_message_def quiet_world_def final_object_def
        field_or_def field_falsy_def str_strip_def)
qed

text \<open>
  C2: with oversight enabled, in a pass whose extracted command is classified
  dangerous: if the gate returns denied (a denied marker or the timeout), the pass
  appends the denial notice as a user message after the reply, runs no command and
  leaves the loop running; if the gate returns approved, the pass goes on to the
  executor. A command is run in the pass exactly when the gate returned approved.
\<close>

theorem dangerous_command_gated:
  assumes "hitl_enabled E"
    and "call_llm E (messages st) (world st) = (response, w1)"
    and "extract_command (json_loads E) response = Inr (PStr c, x)"
    and "is_dangerous (PStr c) = Inr True"
    and "wait_for_approval (sleep E) w1
           (trace st @ [LlmCall (messages st),
              PrintProgress (''[HITL] APPROVAL_REQUIRED: '' @ c)]) = (approved, w2, tr2)"
  shows "(\<not> approved \<longrightarrow>
            body E st =
              st\<lparr>messages := messages st @ [\<lparr>role = Assistant, content = response\<rparr>,
                    user_message ''ERROR: Command denied by user''],
                 world := w2, trace := tr2\<rparr>) \<and>
         (approved \<longrightarrow>
            body E st =
              execute E c
                (st\<lparr>messages := messages st @ [\<lparr>role = Assistant, content = response\<rparr>],
                    world := w2,
                    trace := tr2 @ [PrintProgress (''[HITL] EXECUTING: '' @ c)]\<rparr>)) \<and>
         (list_ex is_run (drop (length (trace st)) (trace (body E st))) \<longleftrightarrow> approved) \<and>
         status (body E st) = status st \<and>
         (status st = Continue \<and> iters < max_iters \<longrightarrow>
            loop E iters st = loop E (iters + 1) (body E st))"
proof -
  have ne: "c \<noteq> []" using extract_command_truthy [OF assms(3)] by simp
  note b = body_command [OF assms(2,3) ne assms(4)]
  obtain evs where evs: "tr2 = (trace st @ [LlmCall (messages st),
        PrintProgress (''[HITL] APPROVAL_REQUIRED: '' @ c)]) @ evs"
      "\<forall>e\<in>set evs. \<not> is_run e \<and> \<not> is_final e \<and> \<not> is_llm_call e"
    using wait_for_approval_events [OF assms(5)] by blast
  have denied: "body E st =
      st\<lparr>messages := messages st @ [\<lparr>role = Assistant, content = response\<rparr>,
            user_message ''ERROR: Command denied by user''],
         world := w2, trace := tr2\<rparr>" if "\<not> approved"
    using that b assms(1,5) by (simp add: after_reply_def)
  have ok: "body E st =
      execute E c
        (st\<lparr>messages := messages st @ [\<lparr>role = Assistant, content = response\<rparr>],
            world := w2, trace := tr2 @ [PrintProgress (''[HITL] EXECUTING: '' @ c)]\<rparr>)" if approved
    using that b assms(1,5) by (simp add: after_reply_def)
  have run: "list_ex is_run (drop (length (trace st)) (trace (body E st))) \<longleftrightarrow> approved"
  proof (cases approved)
    case True
    then show ?thesis using ok evs
      by (simp add: execute_fields is_run_def)
  next
    case False
    then show ?thesis using denied evs
      by (auto simp: list_ex_iff is_run_def)
  qed
  have st: "status (body E st) = status st"
    using denied ok by (cases approved) (simp_all add: execute_fields)
  show ?thesis using denied ok run st by (simp add: loop_step)
qed

theorem dangerous_command_gated_witness:
  \<open>is_dangerous (PStr ''rm -rf /tmp/x'') = Inr True \<and>
   messages (body (sample_env [''{"terminal": "rm -rf /tmp/x"}''] True deny_after_one)
              (initial ''sys'' [] ''clean up'' quiet_world)) =
     [\<lparr>role = System, content = ''sys''\<rparr>, \<lparr>role = User, content = ''clean up''\<rparr>,
      \<lparr>role = Assistant, content = ''{"terminal": "rm -rf /tmp/x"}''\<rparr>,
      \<lparr>role = User, content = ''ERROR: Command denied by user''\<rparr>] \<and>
   \<not> list_ex is_run (trace (body (sample_env [''{"terminal": "rm -rf /tmp/x"}''] True deny_after_one)
              (initial ''sys'' [] ''clean up'' quiet_world))) \<and>
   list_ex is_run (trace (body (sample_env [''{"terminal": "rm -rf /tmp/x"}''] True lock_after_two)
              (initial ''sys'' [] ''clean up'' quiet_world)))\<close>
proof -
  let ?r = \<open>''{"terminal": "rm -rf /tmp/x"}''\<close>
  let ?c = "''rm -rf /tmp/x''"
  let ?st = "initial ''sys'' [] ''clean up'' quiet_world"
  let ?tr = "trace ?st @ [LlmCall (messages ?st), PrintProgress (''[HITL] APPROVAL_REQUIRED: '' @ ?c)]"
  have h1: "hitl_enabled (sample_env [?r] True slp)" for slp by (simp add: sample_env_def)
  have h2: "call_llm (sample_env [?r] True slp) (messages ?st) (world ?st) = (?r, quiet_world)" for slp
    by (simp add: sample_env_def scripted_def initial_def user_message_def)
  have h3: "extract_command (json_loads (sample_env [?r] True slp)) ?r = Inr (PStr ?c, PNone)" for slp
    by (simp add: eval_defs)
  have h4: "is_dangerous (PStr ?c) = Inr True" by (simp add: eval_defs)
  have h5: "wait_for_approval (sleep (sample_env [?r] True deny_after_one)) quiet_world ?tr =
      (False, quiet_world,
       ?tr @ [PrintProgress ''[HITL] Waiting for approval...'', Sleep, PrintProgress ''[HITL] Denied!''])"
    by (simp add: sample_env_def wait_for_approval_def wait_loop.simps deny_after_one_def quiet_world_def)
  have h6: "wait_for_approval (sleep (sample_env [?r] True lock_after_two)) quiet_world ?tr =
      (True, \<lparr>lock_file = False, deny_file = False, rest = 2\<rparr>,
       ?tr @ [PrintProgress ''[HITL] Waiting for approval...'', Sleep, Sleep,
              PrintProgress ''[HITL] Approved!''])"
    by (simp add: sample_env_def wait_for_approval_def wait_loop.simps lock_after_two_def quiet_world_def)
  show ?thesis
    using h4 dangerous_command_gated [OF h1 h2 h3 h4 h5, of 0]
      dangerous_command_gated [OF h1 h2 h3 h4 h6, of 0]
    by (clarsimp simp: initial_def user_message_def execute_fields is_run_def)
qed

text \<open>
  C7: for a command that is not dangerous, or dangerous without oversight, or
  approved by the gate, the pass appends after the reply one user message and leaves
  the loop running: the captured output behind the marker line
  \<^verbatim>\<open>[INTERNAL_COMMAND_OUTPUT]\<close>, with the canned sentence in place of an empty
  output, or, when \<^verbatim>\<open>subprocess.run\<close> raised (the timeout included), the text
  \<^verbatim>\<open>ERROR executing command: \<close> followed by the exception's text. The message is
  never blank.
\<close>

theorem executor_feedback:
  assumes "call_llm E (messages st) (world st) = (response, w1)"
    and "extract_command (json_loads E) response = Inr (PStr c, x)"
    and "is_dangerous (PStr c) = Inr d"
    and "wait_for_approval (sleep E) w1
           (trace st @ [LlmCall (messages st),
              PrintProgress (''[HITL] APPROVAL_REQUIRED: '' @ c)]) = (approved, w2, tr2)"
    and "d \<and> hitl_enabled E \<longrightarrow> approved"
    and "subprocess_run E c (if d \<and> hitl_enabled E then w2 else w1) = (res, w3)"
  shows "messages (body E st) =
           messages st @
             [\<lparr>role = Assistant, content = response\<rparr>,
              user_message
                (case res of
                   Completed out \<Rightarrow>
                     if out = [] then
                       ''[INTERNAL_COMMAND_OUTPUT]'' @ [CHR 0x0A] @
                         ''Command executed successfully with no output.''
                     else ''[INTERNAL_COMMAND_OUTPUT]'' @ [CHR 0x0A] @ out
                 | Raised e \<Rightarrow> ''ERROR executing command: '' @ e)] \<and>
         content (last (messages (body E st))) \<noteq> [] \<and>
         role (last (messages (body E st))) = User \<and>
         world (body E st) = w3 \<and>
         status (body E st) = status st \<and>
         (status st = Continue \<and> iters < max_iters \<longrightarrow>
            loop E iters st = loop E (iters + 1) (body E st))"
proof -
  have ne: "c \<noteq> []" using extract_command_truthy [OF assms(2)] by simp
  note b = body_command [OF assms(1,2) ne assms(3)]
  define st' where "st' =
     (if d \<and> hitl_enabled E then
        (after_reply st response w1)\<lparr>world := w2,
           trace := tr2 @ [PrintProgress (''[HITL] EXECUTING: '' @ c)]\<rparr>
      else after_reply st response w1)"
  have st': "body E st = execute E c st'"
      "messages st' = messages st @ [\<lparr>role = Assistant, content = response\<rparr>]"
      "world st' = (if d \<and> hitl_enabled E then w2 else w1)" "status st' = status st"
  proof -
    show "body E st = execute E c st'"
    proof (cases "d \<and> hitl_enabled E")
      case True
      with assms(5) have approved by simp
      with True b assms(4) show ?thesis by (simp add: st'_def)
    next
      case False
      with b show ?thesis by (auto simp: st'_def)
    qed
  qed (simp_all add: st'_def after_reply_def)
  have m: "messages (body E st) =
           messages st @
             [\<lparr>role = Assistant, content = response\<rparr>,
              user_message
                (case res of
                   Completed out \<Rightarrow>
                     if out = [] then
                       ''[INTERNAL_COMMAND_OUTPUT]'' @ [CHR 0x0A] @
                         ''Command executed successfully with no output.''
                     else ''[INTERNAL_COMMAND_OUTPUT]'' @ [CHR 0x0A] @ out
                 | Raised e \<Rightarrow> ''ERROR executing command: '' @ e)]"
    using st' assms(6) by (simp add: execute_def split: outcome.splits)
  have w: "world (body E st) = w3"
    using st' assms(6) by (simp add: execute_def split: outcome.splits)
  have s: "status (body E st) = status st" using st' by (simp add: execute_fields)
  have l: "content (last (messages (body E st))) \<noteq> [] \<and> role (last (messages (body E st))) = User"
    unfolding m by (simp add: user_message_def split: outcome.splits)
  show ?thesis using m w s l by (simp add: loop_step)
qed

theorem executor_feedback_witness:
  \<open>messages (body (sample_env [''{"terminal": "true"}''] False deny_after_one)
              (initial ''sys'' [] ''go'' quiet_world)) =
     [\<lparr>role = System, content = ''sys''\<rparr>, \<lparr>role = User, content = ''go''\<rparr>,
      \<lparr>role = Assistant, content = ''{"terminal": "true"}''\<rparr>,
      \<lparr>role = User, content = ''[INTERNAL_COMMAND_OUTPUT]'' @ [CHR 0x0A] @
         ''Command executed successfully with no output.''\<rparr>] \<and>
   messages (body (sample_env [''{"terminal": "sleep 300"}''] False deny_after_one)
              (initial ''sys'' [] ''go'' quiet_world)) =
     [\<lparr>role = System, content = ''sys''\<rparr>, \<lparr>role = User, content = ''go''\<rparr>,
      \<lparr>role = Assistant, content = ''{"terminal": "sleep 300"}''\<rparr>,
      \<lparr>role = User, content = ''ERROR executing command: Command timed out after 120 seconds''\<rparr>] \<and>
   messages (body (sample_env [''{"terminal": "rm -rf /tmp/x"}''] True lock_after_two)
              (initial ''sys'' [] ''go'' quiet_world)) =
     [\<lparr>role = System, content = ''sys''\<rparr>, \<lparr>role = User, content = ''go''\<rparr>,
      \<lparr>role = Assistant, content = ''{"terminal": "rm -rf /tmp/x"}''\<rparr>,
      \<lparr>role = User, content = ''[INTERNAL_COMMAND_OUTPUT]'' @ [CHR 0x0A] @
         ''Command executed successfully with no output.''\<rparr>]\<close>
proof -
  let ?st = "initial ''sys'' [] ''go'' quiet_world"
  let ?r1 = \<open>''{"terminal": "true"}''\<close>
  let ?r2 = \<open>''{"terminal": "sleep 300"}''\<close>
  let ?r3 = \<open>''{"terminal": "rm -rf /tmp/x"}''\<close>
  let ?E1 = "sample_env [?r1] False deny_after_one"
  let ?E2 = "sample_env [?r2] False deny_after_one"
  let ?E3 = "sample_env [?r3] True lock_after_two"
  let ?tr = "\<lambda>c. trace ?st @ [LlmCall (messages ?st), PrintProgress (''[HITL] APPROVAL_REQUIRED: '' @ c)]"
  let ?den = "\<lambda>c. (False, quiet_world,
       ?tr c @ [PrintProgress ''[HITL] Waiting for approval...'', Sleep, PrintProgress ''[HITL] Denied!''])"
  have a1: "call_llm ?E1 (messages ?st) (world ?st) = (?r1, quiet_world)"
    by (simp add: sample_env_def scripted_def initial_def user_message_def)
  have a2: "extract_command (json_loads ?E1) ?r1 = Inr (PStr ''true'', PNone)" by (simp add: eval_defs)
  have a3: "is_dangerous (PStr ''true'') = Inr False" by (simp add: eval_defs)
  have a4: "wait_for_approval (sleep ?E1) quiet_world (?tr ''true'') = ?den ''true''"
    by (simp add: sample_env_def wait_for_approval_def wait_loop.simps deny_after_one_def quiet_world_def)
  have a5: "False \<and> hitl_enabled ?E1 \<longrightarrow> False" by simp
  have a6: "subprocess_run ?E1 ''true'' (if False \<and> hitl_enabled ?E1 then quiet_world else quiet_world) =
      (Completed [], quiet_world)"
    by (simp add: sample_env_def sample_run_def)
  have b1: "call_llm ?E2 (messages ?st) (world ?st) = (?r2, quiet_world)"
    by (simp add: sample_env_def scripted_def initial_def user_message_def)
  have b2: "extract_command (json_loads ?E2) ?r2 = Inr (PStr ''sleep 300'', PNone)" by (simp add: eval_defs)
  have b3: "is_dangerous (PStr ''sleep 300'') = Inr False" by (simp add: eval_defs)
  have b4: "wait_for_approval (sleep ?E2) quiet_world (?tr ''sleep 300'') = ?den ''sleep 300''"
    by (simp add: sample_env_def wait_for_approval_def wait_loop.simps deny_after_one_def quiet_world_def)
  have b5: "False \<and> hitl_enabled ?E2 \<longrightarrow> False" by simp
  have b6: "subprocess_run ?E2 ''sleep 300'' (if False \<and> hitl_enabled ?E2 then quiet_world else quiet_world) =
      (Raised ''Command timed out after 120 seconds'', quiet_world)"
    by (simp add: sample_env_def sample_run_def)
  have c1: "call_llm ?E3 (messages ?st) (world ?st) = (?r3, quiet_world)"
    by (simp add: sample_env_def scripted_def initial_def user_message_def)
  have c2: "extract_command (json_loads ?E3) ?r3 = Inr (PStr ''rm -rf /tmp/x'', PNone)" by (simp add: eval_defs)
  have c3: "is_dangerous (PStr ''rm -rf /tmp/x'') = Inr True" by (simp add: eval_defs)
  have c4: "wait_for_approval (sleep ?E3) quiet_world (?tr ''rm -rf /tmp/x'') =
      (True, \<lparr>lock_file = False, deny_file = False, rest = 2\<rparr>,
       ?tr ''rm -rf /tmp/x'' @ [PrintProgress ''[HITL] Waiting for approval...'', Sleep, Sleep,
              PrintProgress ''[HITL] Approved!''])"
    by (simp add: sample_env_def wait_for_approval_def wait_loop.simps lock_after_two_def quiet_world_def)
  have c5: "True \<and> hitl_enabled ?E3 \<longrightarrow> True" by simp
  have c6: "subprocess_run ?E3 ''rm -rf /tmp/x''
       (if True \<and> hitl_enabled ?E3 then \<lparr>lock_file = False, deny_file = False, rest = 2\<rparr> else quiet_world) =
      (Completed [], \<lparr>lock_file = False, deny_file = False, rest = 2\<rparr>)"
    by (simp add: sample_env_def sample_run_def)
  show ?thesis
    using executor_feedback [OF a1 a2 a3 a4 a5 a6, of 0]
      executor_feedback [OF b1 b2 b3 b4 b5 b6, of 0]
      executor_feedback [OF c1 c2 c3 c4 c5 c6, of 0]
    by (clarsimp simp: initial_def user_message_def)
qed

text \<open>
  The faults of a pass. On a command string \<open>is_dangerous\<close> always returns, and with
  a decoder that returns a \<^verbatim>\<open>dict\<close> on texts starting with \<^verbatim>\<open>{\<close> a pass can fault
  in one way only: the command extracted is truthy and not a \<^verbatim>\<open>str\<close>.
\<close>

lemma is_dangerous_total: "\<exists>d. is_dangerous (PStr s) = Inr d"
  by (simp add: is_dangerous_str)

lemma body_fault_cause:
  assumes "decodes_objects (json_loads E)" and "status st = Continue"
    and "status (body E st) = Fault e"
    and "call_llm E (messages st) (world st) = (response, w1)"
  shows "e = AttributeError \<and>
         (\<exists>cmd. extract_command (json_loads E) response = Inr (cmd, PNone) \<and> truthy cmd \<and>
                (\<forall>c. cmd \<noteq> PStr c))"
proof -
  obtain kv js where d: "extract_json_fields (json_loads E) response = (PDict kv, js)"
    using assms(1) extract_json_fields_dict by blast
  then have "\<exists>cmd. extract_command (json_loads E) response = Inr (cmd, PNone)"
    by (simp add: extract_command_def)
  then obtain cmd where c: "extract_command (json_loads E) response = Inr (cmd, PNone)" by blast
  show ?thesis
  proof (cases "truthy cmd")
    case False
    obtain out where "emit_final E response (after_reply st response w1) =
           (after_reply st response w1)\<lparr>trace := trace (after_reply st response w1) @ [out], status := Break\<rparr>"
      using emit_final_break [OF d] by blast
    then have "status (body E st) = Break"
      using body_no_command [OF assms(4) c False] by simp
    with assms(3) show ?thesis by simp
  next
    case True
    show ?thesis
    proof (cases "\<exists>s. cmd = PStr s")
      case False
      then have "is_dangerous cmd = Inl AttributeError"
        by (cases cmd) (simp_all add: is_dangerous_def)
      then have "body E st = (after_reply st response w1)\<lparr>status := Fault AttributeError\<rparr>"
        using assms(4) c True by (simp add: body_def after_reply_def)
      with assms(3) False c True show ?thesis by auto
    next
      case s: True
      then obtain s where s: "cmd = PStr s" by blast
      obtain dg where dg: "is_dangerous (PStr s) = Inr dg" using is_dangerous_total by blast
      have ne: "s \<noteq> []" using True s by simp
      note b = body_command [OF assms(4) c[unfolded s] ne dg]
      have "status (body E st) = status st"
      proof (cases "dg \<and> hitl_enabled E")
        case False
        then show ?thesis using b by (auto simp: execute_fields after_reply_def)
      next
        case True
        obtain approved w2 tr2 where "wait_for_approval (sleep E) w1
                (trace st @ [LlmCall (messages st),
                   PrintProgress (''[HITL] APPROVAL_REQUIRED: '' @ s)]) = (approved, w2, tr2)"
          by (metis prod_cases3)
        then show ?thesis using b True
          by (cases approved) (simp_all add: execute_fields after_reply_def)
      qed
      with assms(2,3) show ?thesis by simp
    qed
  qed
qed

section \<open>Where the code departs from the specification\<close>

text \<open>
  C3 says that no reply makes an invocation end with an unhandled fault, in
  particular a reply whose \<^verbatim>\<open>terminal\<close> field holds a number. On the reply
  \<^verbatim>\<open>{"terminal": 5}\<close> the parser returns the number 5 as the command, and
  \<open>is_dangerous\<close>, called outside any \<^verbatim>\<open>try\<close>, raises \<^verbatim>\<open>AttributeError\<close> on
  \<^verbatim>\<open>cmd.strip()\<close>: the invocation ends with that fault after one backend call.
\<close>

theorem nonstring_terminal_faults:
  \<open>extract_command sample_loads ''{"terminal": 5}'' = Inr (PInt 5, PNone) \<and>
   is_dangerous (PInt 5) = Inl AttributeError \<and>
   main (sample_env [''{"terminal": 5}''] False id) ''sys'' [] ''hello'' quiet_world =
     \<lparr>messages = [\<lparr>role = System, content = ''sys''\<rparr>, \<lparr>role = User, content = ''hello''\<rparr>,
                  \<lparr>role = Assistant, content = ''{"terminal": 5}''\<rparr>],
      world = quiet_world,
      trace = [LlmCall [\<lparr>role = System, content = ''sys''\<rparr>, \<lparr>role = User, content = ''hello''\<rparr>]],
      status = Fault AttributeError\<rparr>\<close>
  by (simp add: main_def max_iters_def loop.simps eval_defs)

text \<open>
  C5 says that \<^verbatim>\<open>panelActions\<close> of the final output is the reply's field only if
  that field is a sequence, and the empty sequence otherwise. \<open>extract_panel_actions\<close>
  does that, and \<open>main\<close> does not call it: on a reply whose \<^verbatim>\<open>panelActions\<close> is the
  text \<^verbatim>\<open>x\<close>, the final output carries that text.
\<close>

theorem panel_actions_unchecked:
  \<open>extract_panel_actions sample_loads ''{"message": "hi", "panelActions": "x"}'' = Inr (PList []) \<and>
   trace (main (sample_env [''{"message": "hi", "panelActions": "x"}''] False id)
            ''sys'' [] ''hello'' quiet_world) =
     [LlmCall [\<lparr>role = System, content = ''sys''\<rparr>, \<lparr>role = User, content = ''hello''\<rparr>],
      PrintJson (PDict [(''userId'', PStr ''''), (''message'', PStr ''hi''), (''action'', PStr ''''),
         (''terminal'', PStr ''''), (''panelActions'', PStr ''x'')])]\<close>
  by (simp add: main_def max_iters_def loop.simps eval_defs)

end
